theory Spec2Isabelle
  imports Main "HOL-Library.Sublist" "HOL-Library.AList"
begin

section \<open>Shallow embedding of the log-ingestion function (src/src/function.py)\<close>

subsection \<open>Constants and exceptions\<close>

datatype EntryType = VPC | LAMBDA | OTHER

definition INGEST_SERVICE_VERSION :: string where
  "INGEST_SERVICE_VERSION = ''v1''"

definition US_INGEST_SERVICE_HOST :: string where
  "US_INGEST_SERVICE_HOST = ''https://cloud-collector.newrelic.com''"

definition EU_INGEST_SERVICE_HOST :: string where
  "EU_INGEST_SERVICE_HOST = ''https://cloud-collector.eu.newrelic.com''"

fun INGEST_SERVICE_PATHS :: "EntryType \<Rightarrow> string" where
  "INGEST_SERVICE_PATHS LAMBDA = ''/aws/lambda''"
| "INGEST_SERVICE_PATHS VPC = ''/aws/vpc''"
| "INGEST_SERVICE_PATHS OTHER = ''/aws''"

definition MAX_RETRIES :: int where
  "MAX_RETRIES = 3"

definition INITIAL_BACKOFF :: int where
  "INITIAL_BACKOFF = 1"

definition BACKOFF_MULTIPLIER :: int where
  "BACKOFF_MULTIPLIER = 2"

definition MAX_PAYLOAD_SIZE :: nat where
  "MAX_PAYLOAD_SIZE = 1000 * 1024"

text \<open>
  The three exception classes of the module, and the built-in exceptions that its
  statements can raise. \<open>BadRequestException\<close> and \<open>ThrottlingException\<close> carry the
  text that \<open>print(e)\<close> shows.
\<close>

datatype exn =
    MaxRetriesException
  | BadRequestException string
  | ThrottlingException string
  | JSONDecodeError
  | KeyError
  | TypeError
  | IndexError
  | OtherError string

fun is_BadRequest :: "exn \<Rightarrow> bool" where
  "is_BadRequest (BadRequestException m) = True"
| "is_BadRequest e = False"

subsection \<open>Text helpers: \<open>str(int)\<close> and the \<open>in\<close> operator on strings\<close>

definition digit_char :: "nat \<Rightarrow> char" where
  "digit_char d = char_of (48 + d)"

function str_of_nat :: "nat \<Rightarrow> string" where
  "str_of_nat n =
     (if n < 10 then [digit_char n] else str_of_nat (n div 10) @ [digit_char (n mod 10)])"
  by pat_completeness auto
termination
  by (relation "measure (\<lambda>n. n)") auto

declare str_of_nat.simps [simp del]

definition str_of_int :: "int \<Rightarrow> string" where
  "str_of_int i = (if i < 0 then CHR ''-'' # str_of_nat (nat (- i)) else str_of_nat (nat i))"

text \<open>\<open>needle in haystack\<close> for two Python strings: the needle occurs at some position.\<close>

fun str_contains :: "string \<Rightarrow> string \<Rightarrow> bool" where
  "str_contains needle [] = (needle = [])"
| "str_contains needle (c # cs) = (prefix needle (c # cs) \<or> str_contains needle cs)"

subsection \<open>Entry classification\<close>

definition VPC_MARKER :: string where
  \<open>VPC_MARKER = [CHR 0x22] @ ''logGroup'' @ [CHR 0x22] @ '':'' @ [CHR 0x22] @ ''/aws/vpc/flow-logs'' @ [CHR 0x22]\<close>

definition LAMBDA_MARKER :: string where
  \<open>LAMBDA_MARKER = [CHR 0x22] @ ''logGroup'' @ [CHR 0x22] @ '':'' @ [CHR 0x22] @ ''/aws/lambda/''\<close>

definition NR_MARKER :: string where
  \<open>NR_MARKER = '','' @ [CHR 0x5C, CHR 0x22] @ ''NR_LAMBDA_MONITORING'' @ [CHR 0x5C, CHR 0x22] @ '',''\<close>

definition get_entry_type :: "string \<Rightarrow> EntryType" where
  "get_entry_type log_entry =
     (if str_contains VPC_MARKER log_entry then VPC
      else if str_contains LAMBDA_MARKER log_entry \<and> str_contains NR_MARKER log_entry then LAMBDA
      else OTHER)"

subsection \<open>The outside world: environment, network, clock, standard output\<close>

record request =
  url :: string
  body :: string
  headers :: "(string \<times> string) list"

text \<open>
  What one call of \<open>do_request\<close> can do: \<open>urlopen\<close> returns a response (its status code
  is kept), raises \<open>HTTPError\<close> (status code and reason), raises \<open>URLError\<close> (reason), or
  something else is raised while the request is built or sent.
\<close>

datatype urlopen_result =
    Response int
  | HTTPError int string
  | URLError string
  | Raised exn

text \<open>
  \<open>net w n req\<close> is what the remote end does with request \<open>req\<close> when it is the
  (n+1)-th request of the invocation; \<open>sent\<close>, \<open>slept\<close> and \<open>printed\<close> record, in order,
  the requests performed, the arguments of \<open>time.sleep\<close> and the lines printed.
\<close>

record world =
  environ :: "string \<rightharpoonup> string"
  net :: "nat \<Rightarrow> request \<Rightarrow> urlopen_result"
  sent :: "request list"
  slept :: "int list"
  printed :: "string list"

definition print :: "string \<Rightarrow> world \<Rightarrow> world" where
  "print line w = w\<lparr>printed := printed w @ [line]\<rparr>"

definition sleep :: "int \<Rightarrow> world \<Rightarrow> world" where
  "sleep secs w = w\<lparr>slept := slept w @ [secs]\<rparr>"

definition getenv :: "world \<Rightarrow> string \<Rightarrow> string \<Rightarrow> string" where
  "getenv w name dflt = (case environ w name of None \<Rightarrow> dflt | Some v \<Rightarrow> v)"

definition urlopen :: "request \<Rightarrow> world \<Rightarrow> urlopen_result \<times> world" where
  "urlopen req w = (net w (length (sent w)) req, w\<lparr>sent := sent w @ [req]\<rparr>)"

subsection \<open>URL and credential resolution\<close>

definition get_license_key :: string where
  "get_license_key = ''f7462ab48bc1fee992a5ab87c707a21b6b1ab893''"

definition get_ingest_service_host :: "world \<Rightarrow> string" where
  "get_ingest_service_host w =
     (let license = getenv w ''LICENSE_KEY'' '''';
          license_region = (if prefix ''eu'' license then ''EU'' else ''US'');
          env_ingest_region = getenv w ''NR_REGION'' license_region
      in if env_ingest_region = ''US'' then US_INGEST_SERVICE_HOST
         else if env_ingest_region = ''EU'' then EU_INGEST_SERVICE_HOST
         else env_ingest_region)"

definition get_ingest_service_url :: "world \<Rightarrow> EntryType \<Rightarrow> string" where
  "get_ingest_service_url w entity_type =
     (let path = INGEST_SERVICE_PATHS entity_type
      in get_ingest_service_host w @ path @ ''/'' @ INGEST_SERVICE_VERSION)"

subsection \<open>The retrying transport\<close>

definition str_HTTPError :: "int \<Rightarrow> string \<Rightarrow> string" where
  "str_HTTPError code msg = ''HTTP Error '' @ str_of_int code @ '': '' @ msg"

definition format_error :: "string \<Rightarrow> string \<Rightarrow> string" where
  "format_error e text = e @ ''. '' @ text"

text \<open>
  The \<open>while retries < MAX_RETRIES\<close> loop of \<open>wrapper_func\<close>, with the loop variables
  \<open>backoff\<close> and \<open>retries\<close> as arguments. The result is the exception raised or the
  status code of the response returned.
\<close>

function retry_loop ::
  "(world \<Rightarrow> urlopen_result \<times> world) \<Rightarrow> int \<Rightarrow> int \<Rightarrow> world \<Rightarrow> (exn + int) \<times> world" where
  "retry_loop func backoff retries w =
     (if retries < MAX_RETRIES then
        (let w1 = (if retries > 0
                   then sleep backoff (print (''Retrying in '' @ str_of_int backoff @ '' seconds'') w)
                   else w);
             backoff1 = (if retries > 0 then backoff * BACKOFF_MULTIPLIER else backoff);
             retries1 = retries + 1
         in case func w1 of
              (HTTPError code msg, w2) \<Rightarrow>
                (if code = 400 then
                   (Inl (BadRequestException (format_error (str_HTTPError code msg) ''Unexpected payload'')), w2)
                 else if code = 403 then
                   (Inl (BadRequestException (format_error (str_HTTPError code msg) ''Review your license key'')), w2)
                 else if code = 404 then
                   (Inl (BadRequestException (format_error (str_HTTPError code msg) ''Review the region endpoint'')), w2)
                 else if code = 429 then
                   (Inl (ThrottlingException (format_error (str_HTTPError code msg) ''Too many requests'')), w2)
                 else if 400 \<le> code \<and> code < 500 then
                   (Inl (BadRequestException (str_HTTPError code msg)), w2)
                 else retry_loop func backoff1 retries1 w2)
            | (URLError reason, w2) \<Rightarrow>
                retry_loop func backoff1 retries1 (print (''There was an error. Reason: '' @ reason) w2)
            | (Raised e, w2) \<Rightarrow> (Inl e, w2)
            | (Response code, w2) \<Rightarrow> (Inr code, w2))
      else (Inl MaxRetriesException, w))"
  by pat_completeness auto
termination
  by (relation "measure (\<lambda>(func, backoff, retries, w). nat (MAX_RETRIES - retries))") auto

declare retry_loop.simps [simp del]

definition wrapper_func :: "(world \<Rightarrow> urlopen_result \<times> world) \<Rightarrow> world \<Rightarrow> (exn + int) \<times> world" where
  "wrapper_func func w = retry_loop func INITIAL_BACKOFF 0 w"

definition make_request :: "world \<Rightarrow> EntryType \<Rightarrow> string \<Rightarrow> request" where
  "make_request w entry_type payload =
     \<lparr>url = get_ingest_service_url w entry_type,
      body = payload,
      headers = [(''X-License-Key'', get_license_key), (''Content-Encoding'', ''gzip'')]\<rparr>"

definition do_request :: "EntryType \<Rightarrow> string \<Rightarrow> world \<Rightarrow> urlopen_result \<times> world" where
  "do_request entry_type payload w = urlopen (make_request w entry_type payload) w"

definition send_payload :: "EntryType \<Rightarrow> string \<Rightarrow> world \<Rightarrow> (exn + unit) \<times> world" where
  "send_payload entry_type payload w =
     (case wrapper_func (do_request entry_type payload) w of
        (Inl MaxRetriesException, w1) \<Rightarrow>
          (Inl MaxRetriesException, print ''Retry limit reached. Failed to send log entry.'' w1)
      | (Inl (BadRequestException m), w1) \<Rightarrow> (Inr (), print m w1)
      | (Inl e, w1) \<Rightarrow> (Inl e, w1)
      | (Inr code, w1) \<Rightarrow> (Inr (), print (''Log entry sent. Response code: '' @ str_of_int code) w1))"

text \<open>The \<open>for payload in ...: _send_payload(entry_type, payload)\<close> loop of \<open>_send_log_entry\<close>.\<close>

fun send_payloads :: "EntryType \<Rightarrow> string list \<Rightarrow> world \<Rightarrow> (exn + unit) \<times> world" where
  "send_payloads entry_type [] w = (Inr (), w)"
| "send_payloads entry_type (payload # rest) w =
     (case send_payload entry_type payload w of
        (Inl e, w1) \<Rightarrow> (Inl e, w1)
      | (Inr u, w1) \<Rightarrow> send_payloads entry_type rest w1)"


subsection \<open>Python values: parsed JSON and trigger events\<close>

text \<open>
  What \<open>json.loads\<close> returns and what a trigger event is made of. A \<open>dict\<close> is an
  association list in insertion order. Numbers are integers here: the code never looks
  at a number, only at the kind of value it has in hand.
\<close>

datatype json =
    JNull
  | JBool bool
  | JNum int
  | JStr string
  | JArr "json list"
  | JObj "(string \<times> json) list"

definition bind_exn :: "exn + 'a \<Rightarrow> ('a \<Rightarrow> exn + 'b) \<Rightarrow> exn + 'b" where
  "bind_exn m f = (case m of Inl e \<Rightarrow> Inl e | Inr x \<Rightarrow> f x)"

text \<open>\<open>key in v\<close> for a string \<open>key\<close>.\<close>

fun py_in :: "string \<Rightarrow> json \<Rightarrow> exn + bool" where
  "py_in k (JObj kvs) = Inr (k \<in> set (map fst kvs))"
| "py_in k (JArr xs) = Inr (JStr k \<in> set xs)"
| "py_in k (JStr s) = Inr (str_contains k s)"
| "py_in k v = Inl TypeError"

text \<open>\<open>v[key]\<close> for a string \<open>key\<close>.\<close>

fun py_getitem :: "json \<Rightarrow> string \<Rightarrow> exn + json" where
  "py_getitem (JObj kvs) k = (case map_of kvs k of None \<Rightarrow> Inl KeyError | Some v \<Rightarrow> Inr v)"
| "py_getitem v k = Inl TypeError"

text \<open>\<open>v[0]\<close>. The keys of a dict made from JSON are strings, so \<open>0\<close> is never one.\<close>

fun py_first :: "json \<Rightarrow> exn + json" where
  "py_first (JArr []) = Inl IndexError"
| "py_first (JArr (x # xs)) = Inr x"
| "py_first (JStr []) = Inl IndexError"
| "py_first (JStr (c # cs)) = Inr (JStr [c])"
| "py_first (JObj kvs) = Inl KeyError"
| "py_first v = Inl TypeError"

text \<open>\<open>len(v)\<close>, \<open>v[:n]\<close> and \<open>v[n:]\<close>. Slicing a dict fails (with \<open>TypeError\<close> up to
  Python 3.11, where a slice cannot be hashed).\<close>

fun py_len :: "json \<Rightarrow> exn + nat" where
  "py_len (JArr xs) = Inr (length xs)"
| "py_len (JStr s) = Inr (length s)"
| "py_len (JObj kvs) = Inr (length kvs)"
| "py_len v = Inl TypeError"

fun py_slice_to :: "json \<Rightarrow> nat \<Rightarrow> exn + json" where
  "py_slice_to (JArr xs) n = Inr (JArr (take n xs))"
| "py_slice_to (JStr s) n = Inr (JStr (take n s))"
| "py_slice_to v n = Inl TypeError"

fun py_slice_from :: "json \<Rightarrow> nat \<Rightarrow> exn + json" where
  "py_slice_from (JArr xs) n = Inr (JArr (drop n xs))"
| "py_slice_from (JStr s) n = Inr (JStr (drop n s))"
| "py_slice_from v n = Inl TypeError"

text \<open>\<open>v[key] = x\<close>: an existing key keeps its place, a new one goes last.\<close>

fun py_setitem :: "json \<Rightarrow> string \<Rightarrow> json \<Rightarrow> exn + json" where
  "py_setitem (JObj kvs) k x = Inr (JObj (AList.update k x kvs))"
| "py_setitem v k x = Inl TypeError"

subsection \<open>Library primitives\<close>

text \<open>
  The encoding, compression and storage primitives the module calls are parameters of
  the model: \<open>json.dumps\<close>, \<open>json.loads\<close> (\<open>None\<close> when it raises \<open>JSONDecodeError\<close>),
  \<open>gzip.compress\<close>, \<open>gzip.decompress\<close>, \<open>b64decode\<close>, \<open>bytes.decode('utf-8')\<close>,
  the S3 read \<open>get_object(Bucket, Key)['Body'].read()\<close>, \<open>bytes.splitlines\<close> and the
  text that \<open>print\<close> shows for a dict. \<open>json.dumps\<close> escapes everything outside ASCII, so
  \<open>.encode()\<close> of its result has the same characters.
\<close>

record platform =
  json_dumps :: "json \<Rightarrow> string"
  json_loads :: "string \<Rightarrow> json option"
  gzip_compress :: "string \<Rightarrow> string"
  gzip_decompress :: "string \<Rightarrow> exn + string"
  b64decode :: "json \<Rightarrow> exn + string"
  utf8_decode :: "string \<Rightarrow> exn + string"
  s3_get_object :: "json \<Rightarrow> json \<Rightarrow> exn + string"
  bytes_splitlines :: "string \<Rightarrow> string list"
  py_repr :: "json \<Rightarrow> string"

subsection \<open>Envelopes and payload splitting\<close>

record lambda_context =
  function_name :: string
  invoked_function_arn :: string
  log_group_name :: string
  log_stream_name :: string

text \<open>The dict \<open>{'context': ..., 'entry': ...}\<close> built by \<open>_send_log_entry\<close>.\<close>

record data =
  data_context :: json
  data_entry :: string

definition context_json :: "lambda_context \<Rightarrow> json" where
  "context_json ctx =
     JObj [(''function_name'', JStr (function_name ctx)),
           (''invoked_function_arn'', JStr (invoked_function_arn ctx)),
           (''log_group_name'', JStr (log_group_name ctx)),
           (''log_stream_name'', JStr (log_stream_name ctx))]"

definition make_data :: "string \<Rightarrow> lambda_context \<Rightarrow> data" where
  "make_data log_entry ctx = \<lparr>data_context = context_json ctx, data_entry = log_entry\<rparr>"

definition data_json :: "data \<Rightarrow> json" where
  "data_json d = JObj [(''context'', data_context d), (''entry'', JStr (data_entry d))]"

text \<open>\<open>gzip.compress(json.dumps(data).encode())\<close>\<close>

definition serialize :: "platform \<Rightarrow> data \<Rightarrow> string" where
  "serialize pf d = gzip_compress pf (json_dumps pf (data_json d))"

text \<open>
  \<open>_reconstruct_data\<close> assigns to \<open>entry['logEvents']\<close> in place: the dict after the
  assignment is returned beside the new envelope, and \<open>_split\<close> passes it to the second
  call, as the shared object is in the source.
\<close>

definition reconstruct_data :: "platform \<Rightarrow> json \<Rightarrow> json \<Rightarrow> json \<Rightarrow> exn + (json \<times> data)" where
  "reconstruct_data pf ctx entry logEvents =
     bind_exn (py_setitem entry ''logEvents'' logEvents) (\<lambda>entry1.
       Inr (entry1, \<lparr>data_context = ctx, data_entry = json_dumps pf entry1\<rparr>))"

definition split :: "platform \<Rightarrow> data \<Rightarrow> exn + (data \<times> data)" where
  "split pf d =
     (let ctx = data_context d in
      case json_loads pf (data_entry d) of
        None \<Rightarrow> Inl JSONDecodeError
      | Some entry \<Rightarrow>
          bind_exn (py_getitem entry ''logEvents'') (\<lambda>logEvents.
          bind_exn (py_len logEvents) (\<lambda>n.
          let half = n div 2 in
          bind_exn (py_slice_to logEvents half) (\<lambda>left.
          bind_exn (reconstruct_data pf ctx entry left) (\<lambda>(entry1, d0).
          bind_exn (py_slice_from logEvents half) (\<lambda>right.
          bind_exn (reconstruct_data pf ctx entry1 right) (\<lambda>(entry2, d1).
          Inr (d0, d1))))))))"

text \<open>
  \<open>_generate_payloads\<close> calls itself on both halves with nothing that bounds the
  depth, so it is a partial function: \<open>None\<close> is a run that never returns.
\<close>

partial_function (option) generate_payloads :: "platform \<Rightarrow> data \<Rightarrow> (exn + string list) option" where
  "generate_payloads pf d =
     (let payload = serialize pf d in
      if length payload < MAX_PAYLOAD_SIZE then Some (Inr [payload])
      else
        (case split pf d of
           Inl e \<Rightarrow> Some (Inl e)
         | Inr (d0, d1) \<Rightarrow>
             Option.bind (generate_payloads pf d0) (\<lambda>r0.
               case r0 of
                 Inl e \<Rightarrow> Some (Inl e)
               | Inr p0 \<Rightarrow>
                   Option.bind (generate_payloads pf d1) (\<lambda>r1.
                     case r1 of
                       Inl e \<Rightarrow> Some (Inl e)
                     | Inr p1 \<Rightarrow> Some (Inr (p0 @ p1))))))"

subsection \<open>Dispatcher and handler\<close>

text \<open>
  A log entry is a \<open>str\<close> on the CloudWatch path and a \<open>bytes\<close> line on the S3 path.
  With \<open>bytes\<close> the first \<open>in\<close> test of \<open>_get_entry_type\<close> raises \<open>TypeError\<close>, before
  any payload is built.
\<close>

datatype pytext = Str string | Bytes string

definition send_log_entry ::
  "platform \<Rightarrow> pytext \<Rightarrow> lambda_context \<Rightarrow> world \<Rightarrow> ((exn + unit) \<times> world) option" where
  "send_log_entry pf log_entry ctx w =
     (case log_entry of
        Bytes b \<Rightarrow> Some (Inl TypeError, w)
      | Str s \<Rightarrow>
          (let d = make_data s ctx;
               entry_type = get_entry_type s
           in Option.bind (generate_payloads pf d) (\<lambda>r.
                case r of
                  Inl e \<Rightarrow> Some (Inl e, w)
                | Inr payloads \<Rightarrow> Some (send_payloads entry_type payloads w))))"

fun send_log_entries ::
  "platform \<Rightarrow> pytext list \<Rightarrow> lambda_context \<Rightarrow> world \<Rightarrow> ((exn + unit) \<times> world) option" where
  "send_log_entries pf [] ctx w = Some (Inr (), w)"
| "send_log_entries pf (log_line # rest) ctx w =
     Option.bind (send_log_entry pf log_line ctx w) (\<lambda>(r, w1).
       case r of
         Inl e \<Rightarrow> Some (Inl e, w1)
       | Inr u \<Rightarrow> send_log_entries pf rest ctx w1)"

definition get_log_type :: "json \<Rightarrow> exn + string" where
  "get_log_type event =
     bind_exn (py_in ''awslogs'' event) (\<lambda>has_awslogs.
       if has_awslogs then Inr ''cw_logs''
       else
         bind_exn (py_in ''Records'' event) (\<lambda>has_records.
           if \<not> has_records then Inr ''unknown''
           else
             bind_exn (py_getitem event ''Records'') (\<lambda>records.
             bind_exn (py_first records) (\<lambda>record0.
             bind_exn (py_in ''s3'' record0) (\<lambda>has_s3.
               if \<not> has_s3 then Inr ''unknown''
               else
                 bind_exn (py_getitem event ''Records'') (\<lambda>records1.
                 bind_exn (py_first records1) (\<lambda>record1.
                 bind_exn (py_getitem record1 ''eventName'') (\<lambda>event_name.
                 bind_exn (py_in ''ObjectCreated'' event_name) (\<lambda>created.
                   if created then Inr ''s3'' else Inr ''unknown'')))))))))"

text \<open>\<open>key.split('.')[-1]\<close>: what follows the last dot, or the whole key.\<close>

definition last_component :: "string \<Rightarrow> string" where
  "last_component k = rev (takeWhile (\<lambda>c. c \<noteq> CHR ''.'') (rev k))"

text \<open>
  \<open>_get_s3_data\<close>. For a key ending in \<open>.gz\<close> the source builds \<open>StringIO(data)\<close> from
  the bytes just read, which raises \<open>TypeError\<close>.
\<close>

definition get_s3_data :: "platform \<Rightarrow> json \<Rightarrow> json \<Rightarrow> exn + string" where
  "get_s3_data pf bucket key =
     bind_exn (s3_get_object pf bucket key) (\<lambda>body_bytes.
       case key of
         JStr k \<Rightarrow> (if last_component k = ''gz'' then Inl TypeError else Inr body_bytes)
       | _ \<Rightarrow> Inl (OtherError ''AttributeError''))"

definition lift_exn :: "exn + 'a \<Rightarrow> world \<Rightarrow> ('a \<Rightarrow> ((exn + unit) \<times> world) option)
    \<Rightarrow> ((exn + unit) \<times> world) option" where
  "lift_exn m w f = (case m of Inl e \<Rightarrow> Some (Inl e, w) | Inr x \<Rightarrow> f x)"

definition lambda_handler ::
  "platform \<Rightarrow> json \<Rightarrow> lambda_context \<Rightarrow> world \<Rightarrow> ((exn + unit) \<times> world) option" where
  "lambda_handler pf event ctx w =
     lift_exn (get_log_type event) w (\<lambda>log_type.
       if log_type = ''cw_logs'' then
         lift_exn (bind_exn (py_getitem event ''awslogs'') (\<lambda>a. py_getitem a ''data'')) w (\<lambda>b64.
         lift_exn (b64decode pf b64) w (\<lambda>event_data.
         lift_exn (bind_exn (gzip_decompress pf event_data) (utf8_decode pf)) w (\<lambda>log_entry.
           send_log_entry pf (Str log_entry) ctx w)))
       else if log_type = ''s3'' then
         lift_exn (bind_exn (py_getitem event ''Records'') (\<lambda>rs.
                   bind_exn (py_first rs) (\<lambda>r0.
                   bind_exn (py_getitem r0 ''s3'') (\<lambda>s.
                   bind_exn (py_getitem s ''bucket'') (\<lambda>b. py_getitem b ''name''))))) w (\<lambda>bucket.
         lift_exn (bind_exn (py_getitem event ''Records'') (\<lambda>rs.
                   bind_exn (py_first rs) (\<lambda>r0.
                   bind_exn (py_getitem r0 ''s3'') (\<lambda>s.
                   bind_exn (py_getitem s ''object'') (\<lambda>ob. py_getitem ob ''key''))))) w (\<lambda>key.
         lift_exn (get_s3_data pf bucket key) w (\<lambda>body_bytes.
           send_log_entries pf (map Bytes (bytes_splitlines pf body_bytes)) ctx w)))
       else Some (Inr (), print (py_repr pf event) (print ''Not supported'' w)))"

subsection \<open>Vocabulary for statements about the transport\<close>

text \<open>
  A failure that the loop answers by trying again: \<open>URLError\<close>, or an \<open>HTTPError\<close> whose
  code is outside 400..499. Among them the transient ones are \<open>URLError\<close> and the 5xx
  responses.
\<close>

fun retryable :: "urlopen_result \<Rightarrow> bool" where
  "retryable (URLError reason) = True"
| "retryable (HTTPError code msg) = (\<not> (400 \<le> code \<and> code < 500))"
| "retryable (Response code) = False"
| "retryable (Raised e) = False"

definition before_attempt :: "int \<Rightarrow> int \<Rightarrow> world \<Rightarrow> world" where
  "before_attempt backoff retries w =
     (if retries > 0
      then sleep backoff (print (''Retrying in '' @ str_of_int backoff @ '' seconds'') w)
      else w)"

fun after_failure :: "urlopen_result \<Rightarrow> world \<Rightarrow> world" where
  "after_failure (URLError reason) w = print (''There was an error. Reason: '' @ reason) w"
| "after_failure x w = w"

fun verdict :: "urlopen_result \<Rightarrow> exn + int" where
  "verdict (Response code) = Inr code"
| "verdict (Raised e) = Inl e"
| "verdict (URLError reason) = Inl MaxRetriesException"
| "verdict (HTTPError code msg) =
     (if code = 400 then Inl (BadRequestException (format_error (str_HTTPError code msg) ''Unexpected payload''))
      else if code = 403 then Inl (BadRequestException (format_error (str_HTTPError code msg) ''Review your license key''))
      else if code = 404 then Inl (BadRequestException (format_error (str_HTTPError code msg) ''Review the region endpoint''))
      else if code = 429 then Inl (ThrottlingException (format_error (str_HTTPError code msg) ''Too many requests''))
      else if 400 \<le> code \<and> code < 500 then Inl (BadRequestException (str_HTTPError code msg))
      else Inl MaxRetriesException)"

fun transient :: "urlopen_result \<Rightarrow> bool" where
  "transient (URLError reason) = True"
| "transient (HTTPError code msg) = (500 \<le> code \<and> code < 600)"
| "transient (Response code) = False"
| "transient (Raised e) = False"

definition backoffs :: "nat \<Rightarrow> int list" where
  "backoffs k = map (\<lambda>n. INITIAL_BACKOFF * BACKOFF_MULTIPLIER ^ (n - 1)) [1..<k]"

definition outcome :: "world \<Rightarrow> EntryType \<Rightarrow> string \<Rightarrow> nat \<Rightarrow> urlopen_result" where
  "outcome w entry_type payload i =
     net w (length (sent w) + i) (make_request w entry_type payload)"

definition progress :: "world \<Rightarrow> world \<Rightarrow> request list \<Rightarrow> int list \<Rightarrow> bool" where
  "progress w w' reqs sl \<longleftrightarrow>
     environ w' = environ w \<and> net w' = net w \<and> sent w' = sent w @ reqs \<and> slept w' = slept w @ sl"

text \<open>
  The run of the loop, attempt by attempt. \<open>attempt_world func w i\<close> is the world in
  which attempt \<open>i + 1\<close> is made when the \<open>i\<close> attempts before it have failed and are
  retried: the first attempt is made in \<open>w\<close>; after a failed attempt the reason of a
  \<open>URLError\<close> is printed, then the line \<open>Retrying in b seconds\<close> is printed and \<open>b\<close>
  seconds are slept, where \<open>b = INITIAL_BACKOFF * BACKOFF_MULTIPLIER ^ (i - 1)\<close> after
  attempt \<open>i\<close>, and the next attempt is made in the world so reached.
  \<open>failed_world func w i\<close> is the world right after the \<open>i\<close>-th failure.
\<close>

fun attempt_world :: "(world \<Rightarrow> urlopen_result \<times> world) \<Rightarrow> world \<Rightarrow> nat \<Rightarrow> world" where
  "attempt_world func w 0 = w"
| "attempt_world func w (Suc i) =
     (case func (attempt_world func w i) of
        (x, v) \<Rightarrow>
          sleep (INITIAL_BACKOFF * BACKOFF_MULTIPLIER ^ i)
            (print (''Retrying in '' @ str_of_int (INITIAL_BACKOFF * BACKOFF_MULTIPLIER ^ i) @ '' seconds'')
               (after_failure x v)))"

fun failed_world :: "(world \<Rightarrow> urlopen_result \<times> world) \<Rightarrow> world \<Rightarrow> nat \<Rightarrow> world" where
  "failed_world func w 0 = w"
| "failed_world func w (Suc i) =
     after_failure (fst (func (attempt_world func w i))) (snd (func (attempt_world func w i)))"

subsection \<open>A small concrete platform\<close>

text \<open>
  To run the model on examples the library primitives need concrete values. The codec
  below writes a value in postfix form, so that reading it back is one pass with a
  stack: \<open>n\<close>, \<open>t\<close>, \<open>f\<close> push null, true, false; \<open>0\<close> pushes the number zero, \<open>+\<close> adds
  one to it and \<open>-\<close> negates it; \<open>s\<close> pushes the empty string and \<open>~c\<close> appends the
  character \<open>c\<close> to it; \<open>[\<close> pushes the empty array and \<open>,\<close> appends the value above it;
  \<open>{\<close> pushes the empty object and \<open>:\<close> appends the key and value above it.
\<close>

definition stack_dumps_str :: "string \<Rightarrow> string" where
  "stack_dumps_str s = CHR ''s'' # concat (map (\<lambda>c. [CHR ''~'', c]) s)"

primrec stack_dumps :: "json \<Rightarrow> string" where
  "stack_dumps JNull = ''n''"
| "stack_dumps (JBool b) = (if b then ''t'' else ''f'')"
| "stack_dumps (JNum i) = CHR ''0'' # replicate (nat \<bar>i\<bar>) CHR ''+'' @ (if i < 0 then ''-'' else [])"
| "stack_dumps (JStr s) = stack_dumps_str s"
| "stack_dumps (JArr xs) = CHR ''['' # concat (map (\<lambda>t. t @ '','') (map stack_dumps xs))"
| "stack_dumps (JObj kvs) =
     CHR ''{'' # concat (map (\<lambda>kt. stack_dumps_str (fst kt) @ snd kt @ '':'') (map (map_prod id stack_dumps) kvs))"

fun stack_step :: "char \<Rightarrow> bool \<times> json list \<Rightarrow> (bool \<times> json list) option" where
  "stack_step c (True, JStr s # st) = Some (False, JStr (s @ [c]) # st)"
| "stack_step c (True, st) = None"
| "stack_step c (False, st) =
     (if c = CHR ''n'' then Some (False, JNull # st)
      else if c = CHR ''t'' then Some (False, JBool True # st)
      else if c = CHR ''f'' then Some (False, JBool False # st)
      else if c = CHR ''0'' then Some (False, JNum 0 # st)
      else if c = CHR ''+'' then
        (case st of JNum i # st1 \<Rightarrow> Some (False, JNum (i + 1) # st1) | _ \<Rightarrow> None)
      else if c = CHR ''-'' then
        (case st of JNum i # st1 \<Rightarrow> Some (False, JNum (- i) # st1) | _ \<Rightarrow> None)
      else if c = CHR ''s'' then Some (False, JStr [] # st)
      else if c = CHR ''~'' then
        (case st of JStr s # st1 \<Rightarrow> Some (True, st) | _ \<Rightarrow> None)
      else if c = CHR ''['' then Some (False, JArr [] # st)
      else if c = CHR '','' then
        (case st of v # JArr xs # st1 \<Rightarrow> Some (False, JArr (xs @ [v]) # st1) | _ \<Rightarrow> None)
      else if c = CHR ''{'' then Some (False, JObj [] # st)
      else if c = CHR '':'' then
        (case st of v # JStr k # JObj kvs # st1 \<Rightarrow> Some (False, JObj (kvs @ [(k, v)]) # st1)
         | _ \<Rightarrow> None)
      else None)"

fun stack_run :: "string \<Rightarrow> bool \<times> json list \<Rightarrow> (bool \<times> json list) option" where
  "stack_run [] st = Some st"
| "stack_run (c # cs) st = (case stack_step c st of None \<Rightarrow> None | Some st1 \<Rightarrow> stack_run cs st1)"

definition stack_loads :: "string \<Rightarrow> json option" where
  "stack_loads s = (case stack_run s (False, []) of Some (False, [v]) \<Rightarrow> Some v | _ \<Rightarrow> None)"

text \<open>
  The compressor of the platform keeps the text and puts padding and a separator in
  front of it: 600000 bytes for every \<open>#\<close> in the text. So one \<open>#\<close> fits in a payload
  and two do not.
\<close>

definition pad_gzip :: "string \<Rightarrow> string" where
  "pad_gzip s = replicate (600000 * count_list s CHR ''#'') CHR ''z'' @ CHR ''|'' # s"

definition pad_gunzip :: "string \<Rightarrow> exn + string" where
  "pad_gunzip b =
     (case dropWhile (\<lambda>c. c = CHR ''z'') b of
        [] \<Rightarrow> Inl (OtherError ''BadGzipFile'')
      | c # rest \<Rightarrow> if c = CHR ''|'' then Inr rest else Inl (OtherError ''BadGzipFile''))"

definition small_platform :: platform where
  "small_platform =
     \<lparr>json_dumps = stack_dumps,
      json_loads = stack_loads,
      gzip_compress = pad_gzip,
      gzip_decompress = pad_gunzip,
      b64decode = (\<lambda>v. case v of JStr s \<Rightarrow> Inr s | _ \<Rightarrow> Inl TypeError),
      utf8_decode = Inr,
      s3_get_object = (\<lambda>bucket key. Inl (OtherError ''NoSuchKey'')),
      bytes_splitlines = (\<lambda>s. if s = [] then [] else [s]),
      py_repr = stack_dumps\<rparr>"

subsection \<open>Example worlds\<close>

text \<open>
  A world with an empty environment in which the remote end answers the successive
  requests as the script says, and is unreachable once the script is used up.
\<close>

definition scripted_world :: "urlopen_result list \<Rightarrow> world" where
  "scripted_world script =
     \<lparr>environ = Map.empty,
      net = (\<lambda>n req. if n < length script then script ! n else URLError ''unreachable''),
      sent = [], slept = [], printed = []\<rparr>"

subsection \<open>Vocabulary for statements about splitting\<close>

text \<open>The parsed entry with the value of its \<open>logEvents\<close> key replaced by a list of events.\<close>

definition entry_with :: "(string \<times> json) list \<Rightarrow> json list \<Rightarrow> json" where
  "entry_with kvs evs = JObj (AList.update ''logEvents'' (JArr evs) kvs)"

text \<open>
  What the receiving end finds in a payload: it decompresses it, parses the envelope,
  parses the text of its \<open>entry\<close> and takes the list under \<open>logEvents\<close>.
\<close>

definition payload_logEvents :: "platform \<Rightarrow> string \<Rightarrow> json list option" where
  "payload_logEvents pf payload =
     (case gzip_decompress pf payload of
        Inl e \<Rightarrow> None
      | Inr text \<Rightarrow>
          (case json_loads pf text of
             Some (JObj envelope) \<Rightarrow>
               (case map_of envelope ''entry'' of
                  Some (JStr s) \<Rightarrow>
                    (case json_loads pf s of
                       Some (JObj entry) \<Rightarrow>
                         (case map_of entry ''logEvents'' of
                            Some (JArr evs) \<Rightarrow> Some evs
                          | _ \<Rightarrow> None)
                     | _ \<Rightarrow> None)
                | _ \<Rightarrow> None)
           | _ \<Rightarrow> None))"

fun carried_logEvents :: "platform \<Rightarrow> string list \<Rightarrow> json list option" where
  "carried_logEvents pf [] = Some []"
| "carried_logEvents pf (payload # rest) =
     (case payload_logEvents pf payload of
        None \<Rightarrow> None
      | Some evs \<Rightarrow> map_option (\<lambda>more. evs @ more) (carried_logEvents pf rest))"

text \<open>
  The standard behaviour of the library that statements about the content of payloads
  rely on. Parsing undoes serialising for the entry with its events replaced by any
  list made of events of the original list; decompressing undoes compressing; and
  parsing undoes serialising for the envelopes of the given context.
\<close>

definition entry_reads_back :: "platform \<Rightarrow> (string \<times> json) list \<Rightarrow> json list \<Rightarrow> bool" where
  "entry_reads_back pf kvs evs \<longleftrightarrow>
     (\<forall>evs'. set evs' \<subseteq> set evs \<longrightarrow>
        json_loads pf (json_dumps pf (entry_with kvs evs')) = Some (entry_with kvs evs'))"

definition reads_back :: "platform \<Rightarrow> json \<Rightarrow> (string \<times> json) list \<Rightarrow> json list \<Rightarrow> bool" where
  "reads_back pf ctx kvs evs \<longleftrightarrow>
     (\<forall>b. gzip_decompress pf (gzip_compress pf b) = Inr b) \<and>
     (\<forall>s. json_loads pf (json_dumps pf (data_json \<lparr>data_context = ctx, data_entry = s\<rparr>)) =
          Some (data_json \<lparr>data_context = ctx, data_entry = s\<rparr>)) \<and>
     entry_reads_back pf kvs evs"

text \<open>
  Every single event fits: the envelope as it is given fits when it has at most one
  event, and so does, for each of its events, the envelope that \<open>_split\<close> builds for
  that event alone.
\<close>

definition single_events_fit :: "platform \<Rightarrow> data \<Rightarrow> (string \<times> json) list \<Rightarrow> json list \<Rightarrow> bool" where
  "single_events_fit pf d kvs evs \<longleftrightarrow>
     (length evs \<le> 1 \<longrightarrow> length (serialize pf d) < MAX_PAYLOAD_SIZE) \<and>
     (\<forall>ev \<in> set evs.
        length (serialize pf \<lparr>data_context = data_context d,
                               data_entry = json_dumps pf (entry_with kvs [ev])\<rparr>) < MAX_PAYLOAD_SIZE)"

text \<open>The exception with which \<open>_split\<close> ends when the entry cannot be split, if any.\<close>

definition split_failure :: "platform \<Rightarrow> string \<Rightarrow> exn option" where
  "split_failure pf s =
     (case json_loads pf s of
        None \<Rightarrow> Some JSONDecodeError
      | Some (JObj kvs) \<Rightarrow>
          (case map_of kvs ''logEvents'' of
             None \<Rightarrow> Some KeyError
           | Some (JArr xs) \<Rightarrow> None
           | Some (JStr t) \<Rightarrow> None
           | Some v \<Rightarrow> Some TypeError)
      | Some v \<Rightarrow> Some TypeError)"

definition example_context :: lambda_context where
  "example_context =
     \<lparr>function_name = ''ingest'', invoked_function_arn = ''arn:aws:lambda:fn'',
      log_group_name = ''/aws/lambda/ingest'', log_stream_name = ''2019/01/01''\<rparr>"

text \<open>An entry as CloudWatch delivers it, cut down to an owner and the list of events.\<close>

definition example_entry :: "json list \<Rightarrow> json" where
  "example_entry evs = JObj [(''owner'', JStr ''1''), (''logEvents'', JArr evs)]"

definition example_data :: "json list \<Rightarrow> data" where
  "example_data evs = make_data (stack_dumps (example_entry evs)) example_context"

section \<open>Properties\<close>

subsection \<open>The \<open>in\<close> test and the retry loop, step by step\<close>

lemma str_contains_sublist: "str_contains n s = sublist n s"
  by (induction s) (auto simp: sublist_Cons_right)

lemma str_contains_iff: "str_contains n s \<longleftrightarrow> (\<exists>p q. s = p @ n @ q)"
  by (simp add: str_contains_sublist sublist_def)

lemma retry_loop_retryable:
  assumes "retries < MAX_RETRIES" "func (before_attempt backoff retries w) = (x, w2)" "retryable x"
  shows "retry_loop func backoff retries w =
         retry_loop func (if retries > 0 then backoff * BACKOFF_MULTIPLIER else backoff) (retries + 1)
           (after_failure x w2)"
  using assms
  by (subst retry_loop.simps) (cases x; auto simp: before_attempt_def Let_def)

lemma retry_loop_final:
  assumes "retries < MAX_RETRIES" "func (before_attempt backoff retries w) = (x, w2)" "\<not> retryable x"
  shows "retry_loop func backoff retries w = (verdict x, w2)"
  using assms
  by (subst retry_loop.simps) (cases x; auto simp: before_attempt_def Let_def)

lemma retry_loop_exhausted:
  "\<not> retries < MAX_RETRIES \<Longrightarrow> retry_loop func backoff retries w = (Inl MaxRetriesException, w)"
  by (subst retry_loop.simps) simp

lemma transient_retryable: "transient x \<Longrightarrow> retryable x"
  by (cases x) auto

lemma make_request_environ:
  "environ w' = environ w \<Longrightarrow> make_request w' et p = make_request w et p"
  by (simp add: make_request_def get_ingest_service_url_def get_ingest_service_host_def getenv_def)

lemma progress_refl: "progress w w [] []"
  by (simp add: progress_def)

lemma progress_before_attempt:
  "progress w wj reqs sl \<Longrightarrow>
   progress w (before_attempt b r wj) reqs (sl @ (if r > 0 then [b] else []))"
  by (simp add: progress_def before_attempt_def sleep_def print_def)

lemma progress_after_failure:
  "progress w wj reqs sl \<Longrightarrow> progress w (after_failure x wj) reqs sl"
  by (cases x) (simp_all add: progress_def print_def)

lemma do_request_progress:
  assumes "progress w wj reqs sl"
  shows "\<exists>wk. do_request et p wj = (outcome w et p (length reqs), wk) \<and>
              progress w wk (reqs @ [make_request w et p]) sl"
proof -
  from assms have env: "environ wj = environ w" and n: "net wj = net w"
    and s: "sent wj = sent w @ reqs" by (simp_all add: progress_def)
  have mr: "make_request wj et p = make_request w et p" using env by (rule make_request_environ)
  show ?thesis
    using assms by (simp add: do_request_def urlopen_def outcome_def mr n s progress_def)
qed

lemma attempt_retryable:
  assumes "progress w wj reqs sl" "r < MAX_RETRIES" "retryable (outcome w et p (length reqs))"
  shows "\<exists>wk. retry_loop (do_request et p) b r wj =
               retry_loop (do_request et p) (if r > 0 then b * BACKOFF_MULTIPLIER else b) (r + 1) wk \<and>
              progress w wk (reqs @ [make_request w et p]) (sl @ (if r > 0 then [b] else []))"
proof -
  from progress_before_attempt [OF assms(1)]
  have p1: "progress w (before_attempt b r wj) reqs (sl @ (if r > 0 then [b] else []))" .
  from do_request_progress [OF p1] obtain w2 where
    d: "do_request et p (before_attempt b r wj) = (outcome w et p (length reqs), w2)" and
    p2: "progress w w2 (reqs @ [make_request w et p]) (sl @ (if r > 0 then [b] else []))"
    by blast
  from retry_loop_retryable [where func = "do_request et p", OF assms(2) d assms(3)] progress_after_failure [OF p2]
  show ?thesis by blast
qed

lemma attempt_final:
  assumes "progress w wj reqs sl" "r < MAX_RETRIES" "\<not> retryable (outcome w et p (length reqs))"
  shows "\<exists>wk. retry_loop (do_request et p) b r wj = (verdict (outcome w et p (length reqs)), wk) \<and>
              progress w wk (reqs @ [make_request w et p]) (sl @ (if r > 0 then [b] else []))"
proof -
  from progress_before_attempt [OF assms(1)]
  have p1: "progress w (before_attempt b r wj) reqs (sl @ (if r > 0 then [b] else []))" .
  from do_request_progress [OF p1] obtain w2 where
    d: "do_request et p (before_attempt b r wj) = (outcome w et p (length reqs), w2)" and
    p2: "progress w w2 (reqs @ [make_request w et p]) (sl @ (if r > 0 then [b] else []))"
    by blast
  from retry_loop_final [where func = "do_request et p", OF assms(2) d assms(3)] p2
  show ?thesis by blast
qed

lemma backoffs_Suc:
  "backoffs (Suc k) =
   backoffs k @ (if int k > 0 then [INITIAL_BACKOFF * BACKOFF_MULTIPLIER ^ (k - 1)] else [])"
  by (cases k) (simp_all add: backoffs_def)

lemma run_prefix:
  assumes "k \<le> 3" "\<forall>i<k. retryable (outcome w et p i)"
  shows "\<exists>wk. wrapper_func (do_request et p) w =
               retry_loop (do_request et p) (INITIAL_BACKOFF * BACKOFF_MULTIPLIER ^ (k - 1)) (int k) wk \<and>
              progress w wk (replicate k (make_request w et p)) (backoffs k)"
  using assms
proof (induction k)
  case 0
  show ?case
    by (rule exI [of _ w]) (simp add: wrapper_func_def progress_def backoffs_def)
next
  case (Suc k)
  then obtain wk where
    run: "wrapper_func (do_request et p) w =
          retry_loop (do_request et p) (INITIAL_BACKOFF * BACKOFF_MULTIPLIER ^ (k - 1)) (int k) wk" and
    pr: "progress w wk (replicate k (make_request w et p)) (backoffs k)"
    by auto
  have lt: "int k < MAX_RETRIES" using Suc.prems by (simp add: MAX_RETRIES_def)
  have re: "retryable (outcome w et p (length (replicate k (make_request w et p))))"
    using Suc.prems by simp
  from attempt_retryable [OF pr lt re, of "INITIAL_BACKOFF * BACKOFF_MULTIPLIER ^ (k - 1)"]
  obtain wk' where
    st: "retry_loop (do_request et p) (INITIAL_BACKOFF * BACKOFF_MULTIPLIER ^ (k - 1)) (int k) wk =
         retry_loop (do_request et p)
           (if int k > 0 then INITIAL_BACKOFF * BACKOFF_MULTIPLIER ^ (k - 1) * BACKOFF_MULTIPLIER
            else INITIAL_BACKOFF * BACKOFF_MULTIPLIER ^ (k - 1)) (int k + 1) wk'" and
    pr': "progress w wk' (replicate k (make_request w et p) @ [make_request w et p])
           (backoffs k @ (if int k > 0 then [INITIAL_BACKOFF * BACKOFF_MULTIPLIER ^ (k - 1)] else []))"
    by blast
  have b: "(if int k > 0 then INITIAL_BACKOFF * BACKOFF_MULTIPLIER ^ (k - 1) * BACKOFF_MULTIPLIER
            else INITIAL_BACKOFF * BACKOFF_MULTIPLIER ^ (k - 1)) =
           INITIAL_BACKOFF * BACKOFF_MULTIPLIER ^ (Suc k - 1)"
    by (cases k) simp_all
  have r: "replicate k (make_request w et p) @ [make_request w et p] =
           replicate (Suc k) (make_request w et p)"
    by (simp add: replicate_append_same)
  have i: "int k + 1 = int (Suc k)" by simp
  show ?case
    using run st pr' unfolding b r i backoffs_Suc [symmetric] by (intro exI [of _ wk']) simp
qed

lemma run_final:
  assumes "1 \<le> k" "k \<le> 3" "\<forall>i<k - 1. retryable (outcome w et p i)"
    "\<not> retryable (outcome w et p (k - 1))"
  shows "\<exists>w'. wrapper_func (do_request et p) w = (verdict (outcome w et p (k - 1)), w') \<and>
              progress w w' (replicate k (make_request w et p)) (backoffs k)"
proof -
  obtain j where k: "k = Suc j" using assms(1) by (cases k) auto
  have "j \<le> 3" using assms(2) k by simp
  from run_prefix [OF this, of w et p] assms(3) k obtain wj where
    run: "wrapper_func (do_request et p) w =
          retry_loop (do_request et p) (INITIAL_BACKOFF * BACKOFF_MULTIPLIER ^ (j - 1)) (int j) wj" and
    pr: "progress w wj (replicate j (make_request w et p)) (backoffs j)"
    by auto
  have lt: "int j < MAX_RETRIES" using assms(2) k by (simp add: MAX_RETRIES_def)
  have nr: "\<not> retryable (outcome w et p (length (replicate j (make_request w et p))))"
    using assms(4) k by simp
  from attempt_final [OF pr lt nr, of "INITIAL_BACKOFF * BACKOFF_MULTIPLIER ^ (j - 1)"]
  obtain w' where
    st: "retry_loop (do_request et p) (INITIAL_BACKOFF * BACKOFF_MULTIPLIER ^ (j - 1)) (int j) wj =
         (verdict (outcome w et p (length (replicate j (make_request w et p)))), w')" and
    pr': "progress w w' (replicate j (make_request w et p) @ [make_request w et p])
           (backoffs j @ (if int j > 0 then [INITIAL_BACKOFF * BACKOFF_MULTIPLIER ^ (j - 1)] else []))"
    by blast
  have r: "replicate j (make_request w et p) @ [make_request w et p] =
           replicate (Suc j) (make_request w et p)"
    by (simp add: replicate_append_same)
  show ?thesis
    using run st pr' unfolding k r backoffs_Suc [symmetric] by (intro exI [of _ w']) simp
qed

lemma run_exhausted:
  assumes "\<forall>i<3. retryable (outcome w et p i)"
  shows "\<exists>w'. wrapper_func (do_request et p) w = (Inl MaxRetriesException, w') \<and>
              progress w w' (replicate 3 (make_request w et p)) (backoffs 3)"
proof -
  from run_prefix [of 3 w et p] assms obtain w3 where
    run: "wrapper_func (do_request et p) w =
          retry_loop (do_request et p) (INITIAL_BACKOFF * BACKOFF_MULTIPLIER ^ (3 - 1)) (int 3) w3" and
    pr: "progress w w3 (replicate 3 (make_request w et p)) (backoffs 3)"
    by auto
  have "\<not> int 3 < MAX_RETRIES" by (simp add: MAX_RETRIES_def)
  from retry_loop_exhausted [OF this] run pr show ?thesis by auto
qed

lemma backoffs_3: "backoffs 3 = [1, 2]"
  by (simp add: backoffs_def INITIAL_BACKOFF_def BACKOFF_MULTIPLIER_def upt_rec numeral_3_eq_3)


subsection \<open>Entry classification\<close>

text \<open>
  C7. \<open>_get_entry_type\<close> is a total function on strings: every text gets exactly one
  category, VPC when the flow-log marker occurs somewhere in it, else LAMBDA when both
  the lambda log-group marker and the monitoring marker occur, else OTHER. An
  occurrence of a marker is stated directly, as a decomposition of the text.
\<close>

theorem entry_classification:
  "get_entry_type s =
     (if (\<exists>p q. s = p @ VPC_MARKER @ q) then VPC
      else if (\<exists>p q. s = p @ LAMBDA_MARKER @ q) \<and> (\<exists>p q. s = p @ NR_MARKER @ q) then LAMBDA
      else OTHER)"
  unfolding get_entry_type_def str_contains_iff by simp

subsection \<open>The small platform reads back what it writes\<close>

lemma stack_run_append:
  "stack_run (a @ b) st = Option.bind (stack_run a st) (stack_run b)"
  by (induction a arbitrary: st) (auto split: option.splits)

lemma stack_run_plus:
  "stack_run (replicate n CHR ''+'' @ rest) (False, JNum k # st) =
   stack_run rest (False, JNum (k + int n) # st)"
  by (induction n arbitrary: k) (simp_all add: algebra_simps)

lemma stack_run_chars:
  "stack_run (concat (map (\<lambda>c. [CHR ''~'', c]) s) @ rest) (False, JStr t # st) =
   stack_run rest (False, JStr (t @ s) # st)"
  by (induction s arbitrary: t) simp_all

lemma stack_run_str:
  "stack_run (stack_dumps_str s @ rest) (False, st) = stack_run rest (False, JStr s # st)"
  using stack_run_chars [of s rest "[]" st] by (simp add: stack_dumps_str_def)

lemma stack_run_items:
  assumes "\<And>x rest st. x \<in> set xs \<Longrightarrow>
             stack_run (stack_dumps x @ rest) (False, st) = stack_run rest (False, x # st)"
  shows "stack_run (concat (map (\<lambda>t. t @ '','') (map stack_dumps xs)) @ rest) (False, JArr ys # st) =
         stack_run rest (False, JArr (ys @ xs) # st)"
  using assms by (induction xs arbitrary: ys) simp_all

lemma stack_dumps_JObj:
  "stack_dumps (JObj kvs) =
   CHR ''{'' # concat (map (\<lambda>kt. stack_dumps_str (fst kt) @ stack_dumps (snd kt) @ '':'') kvs)"
  by (induction kvs) auto

lemma stack_run_members:
  assumes "\<And>k v rest st. (k, v) \<in> set kvs \<Longrightarrow>
             stack_run (stack_dumps v @ rest) (False, st) = stack_run rest (False, v # st)"
  shows "stack_run (concat (map (\<lambda>kt. stack_dumps_str (fst kt) @ stack_dumps (snd kt) @ '':'') kvs) @ rest)
           (False, JObj ys # st) =
         stack_run rest (False, JObj (ys @ kvs) # st)"
  using assms
proof (induction kvs arbitrary: ys)
  case Nil
  then show ?case by simp
next
  case (Cons kv kvs)
  obtain k v where kv: "kv = (k, v)" by (cases kv)
  have v: "\<And>rest st. stack_run (stack_dumps v @ rest) (False, st) = stack_run rest (False, v # st)"
    using Cons.prems [of k v] kv by simp
  have "stack_run (concat (map (\<lambda>kt. stack_dumps_str (fst kt) @ stack_dumps (snd kt) @ '':'') kvs) @ rest)
          (False, JObj (ys @ [kv]) # st) =
        stack_run rest (False, JObj ((ys @ [kv]) @ kvs) # st)"
    by (rule Cons.IH) (use Cons.prems in auto)
  then show ?case
    by (simp add: kv stack_run_str v)
qed

lemma stack_run_dumps:
  "stack_run (stack_dumps j @ rest) (False, st) = stack_run rest (False, j # st)"
proof (induction j arbitrary: rest st)
  case JNull
  show ?case by simp
next
  case (JBool b)
  show ?case by simp
next
  case (JNum i)
  show ?case using stack_run_plus [of "nat \<bar>i\<bar>" _ 0 st] by auto
next
  case (JStr s)
  show ?case by (simp add: stack_run_str)
next
  case (JArr xs)
  show ?case using stack_run_items [of xs rest "[]" st] JArr by simp
next
  case (JObj kvs)
  have "\<And>k v rest st. (k, v) \<in> set kvs \<Longrightarrow>
          stack_run (stack_dumps v @ rest) (False, st) = stack_run rest (False, v # st)"
    using JObj by force
  from stack_run_members [where kvs = kvs and rest = rest and ys = "[]" and st = st, OF this]
  show ?case unfolding stack_dumps_JObj by simp
qed

lemma stack_loads_dumps: "stack_loads (stack_dumps j) = Some j"
  using stack_run_dumps [of j "[]" "[]"] by (simp add: stack_loads_def)

lemma dropWhile_replicate_same:
  "dropWhile (\<lambda>c. c = x) (replicate n x @ ys) = dropWhile (\<lambda>c. c = x) ys"
  by (induction n) simp_all

lemma pad_gunzip_gzip: "pad_gunzip (pad_gzip s) = Inr s"
  by (simp add: pad_gunzip_def pad_gzip_def dropWhile_replicate_same)

lemma length_pad_gzip: "length (pad_gzip s) = 600000 * count_list s CHR ''#'' + 1 + length s"
  by (simp add: pad_gzip_def)

subsection \<open>Retry budget and backoff\<close>

lemma outcome_scripted:
  "outcome (scripted_world script) et p i =
     (if i < length script then script ! i else URLError ''unreachable'')"
  by (simp add: outcome_def scripted_world_def)

lemma retry_totals:
  "((\<forall>i<3. retryable (outcome w et p i)) \<longrightarrow>
      (\<exists>w'. wrapper_func (do_request et p) w = (Inl MaxRetriesException, w') \<and>
            sent w' = sent w @ replicate (nat MAX_RETRIES) (make_request w et p) \<and>
            slept w' = slept w @ [1, 2])) \<and>
   (1 \<le> k \<and> k \<le> 3 \<and> (\<forall>i<k - 1. retryable (outcome w et p i)) \<and>
    outcome w et p (k - 1) = Response code \<longrightarrow>
      (\<exists>w'. wrapper_func (do_request et p) w = (Inr code, w') \<and>
            sent w' = sent w @ replicate k (make_request w et p) \<and>
            slept w' = slept w @ map (\<lambda>n. INITIAL_BACKOFF * BACKOFF_MULTIPLIER ^ (n - 1)) [1..<k]))"
proof (intro conjI impI)
  assume "\<forall>i<3. retryable (outcome w et p i)"
  from run_exhausted [OF this] obtain w' where
    "wrapper_func (do_request et p) w = (Inl MaxRetriesException, w')"
    "progress w w' (replicate 3 (make_request w et p)) (backoffs 3)"
    by blast
  then show "\<exists>w'. wrapper_func (do_request et p) w = (Inl MaxRetriesException, w') \<and>
            sent w' = sent w @ replicate (nat MAX_RETRIES) (make_request w et p) \<and>
            slept w' = slept w @ [1, 2]"
    by (auto simp: progress_def backoffs_3 MAX_RETRIES_def)
next
  assume a: "1 \<le> k \<and> k \<le> 3 \<and> (\<forall>i<k - 1. retryable (outcome w et p i)) \<and>
    outcome w et p (k - 1) = Response code"
  then have "\<not> retryable (outcome w et p (k - 1))" by simp
  with a run_final [of k w et p] obtain w' where
    "wrapper_func (do_request et p) w = (verdict (outcome w et p (k - 1)), w')"
    "progress w w' (replicate k (make_request w et p)) (backoffs k)"
    by blast
  with a show "\<exists>w'. wrapper_func (do_request et p) w = (Inr code, w') \<and>
            sent w' = sent w @ replicate k (make_request w et p) \<and>
            slept w' = slept w @ map (\<lambda>n. INITIAL_BACKOFF * BACKOFF_MULTIPLIER ^ (n - 1)) [1..<k]"
    by (auto simp: progress_def backoffs_def)
qed

lemma before_attempt_failed_world:
  "before_attempt (INITIAL_BACKOFF * BACKOFF_MULTIPLIER ^ (k - 1)) (int k) (failed_world func w k) =
   attempt_world func w k"
  by (cases k) (simp_all add: before_attempt_def split: prod.splits)

lemma loop_after_failures:
  assumes "k \<le> 3" "\<forall>i<k. retryable (fst (func (attempt_world func w i)))"
  shows "wrapper_func func w =
         retry_loop func (INITIAL_BACKOFF * BACKOFF_MULTIPLIER ^ (k - 1)) (int k) (failed_world func w k)"
  using assms
proof (induction k)
  case 0
  show ?case by (simp add: wrapper_func_def)
next
  case (Suc k)
  then have run: "wrapper_func func w =
      retry_loop func (INITIAL_BACKOFF * BACKOFF_MULTIPLIER ^ (k - 1)) (int k) (failed_world func w k)"
    by simp
  have lt: "int k < MAX_RETRIES" using Suc.prems by (simp add: MAX_RETRIES_def)
  have f: "func (before_attempt (INITIAL_BACKOFF * BACKOFF_MULTIPLIER ^ (k - 1)) (int k) (failed_world func w k)) =
           (fst (func (attempt_world func w k)), snd (func (attempt_world func w k)))"
    using before_attempt_failed_world [of k func w] by simp
  have re: "retryable (fst (func (attempt_world func w k)))" using Suc.prems by simp
  have b: "(if int k > 0 then INITIAL_BACKOFF * BACKOFF_MULTIPLIER ^ (k - 1) * BACKOFF_MULTIPLIER
            else INITIAL_BACKOFF * BACKOFF_MULTIPLIER ^ (k - 1)) =
           INITIAL_BACKOFF * BACKOFF_MULTIPLIER ^ (Suc k - 1)"
    by (cases k) simp_all
  have i: "int k + 1 = int (Suc k)" by simp
  from retry_loop_retryable [where func = func, OF lt f re] run
  show ?case unfolding b i by simp
qed

lemma loop_final:
  assumes "k < 3" "\<forall>i<k. retryable (fst (func (attempt_world func w i)))"
    "\<not> retryable (fst (func (attempt_world func w k)))"
  shows "wrapper_func func w =
         (verdict (fst (func (attempt_world func w k))), snd (func (attempt_world func w k)))"
proof -
  have "k \<le> 3" using assms(1) by simp
  from loop_after_failures [OF this assms(2)]
  have run: "wrapper_func func w =
      retry_loop func (INITIAL_BACKOFF * BACKOFF_MULTIPLIER ^ (k - 1)) (int k) (failed_world func w k)" .
  have lt: "int k < MAX_RETRIES" using assms(1) by (simp add: MAX_RETRIES_def)
  have f: "func (before_attempt (INITIAL_BACKOFF * BACKOFF_MULTIPLIER ^ (k - 1)) (int k) (failed_world func w k)) =
           (fst (func (attempt_world func w k)), snd (func (attempt_world func w k)))"
    using before_attempt_failed_world [of k func w] by simp
  from retry_loop_final [where func = func, OF lt f assms(3)] run show ?thesis by simp
qed

lemma loop_exhausted:
  assumes "\<forall>i<3. retryable (fst (func (attempt_world func w i)))"
  shows "wrapper_func func w =
         (Inl MaxRetriesException,
          after_failure (fst (func (attempt_world func w 2))) (snd (func (attempt_world func w 2))))"
proof -
  from loop_after_failures [of 3 func w] assms
  have run: "wrapper_func func w =
      retry_loop func (INITIAL_BACKOFF * BACKOFF_MULTIPLIER ^ (3 - 1)) (int 3) (failed_world func w 3)"
    by simp
  have fw: "failed_world func w 3 =
      after_failure (fst (func (attempt_world func w 2))) (snd (func (attempt_world func w 2)))"
    by (simp only: numeral_3_eq_3 numeral_2_eq_2 failed_world.simps)
  have "\<not> int 3 < MAX_RETRIES" by (simp add: MAX_RETRIES_def)
  from retry_loop_exhausted [OF this] run show ?thesis by (simp only: fw)
qed

lemma attempt_world_do_request:
  "progress w (attempt_world (do_request et p) w i) (replicate i (make_request w et p)) (backoffs (Suc i))"
proof (induction i)
  case 0
  show ?case by (simp add: progress_def backoffs_def)
next
  case (Suc i)
  from do_request_progress [OF Suc, of et p] obtain v where
    d: "do_request et p (attempt_world (do_request et p) w i) = (outcome w et p (length (replicate i (make_request w et p))), v)"
    and pv: "progress w v (replicate i (make_request w et p) @ [make_request w et p]) (backoffs (Suc i))"
    by blast
  have r: "replicate i (make_request w et p) @ [make_request w et p] = replicate (Suc i) (make_request w et p)"
    by (simp add: replicate_append_same)
  have "progress w (after_failure (outcome w et p i) v) (replicate (Suc i) (make_request w et p)) (backoffs (Suc i))"
    using progress_after_failure [OF pv] r by simp
  from progress_before_attempt [OF this, of "INITIAL_BACKOFF * BACKOFF_MULTIPLIER ^ i" "int (Suc i)"]
  show ?case using d by (simp add: before_attempt_def backoffs_Suc [of "Suc i"])
qed

lemma attempt_do_request:
  "\<exists>v. do_request et p (attempt_world (do_request et p) w i) = (outcome w et p i, v) \<and>
       progress w v (replicate (Suc i) (make_request w et p)) (backoffs (Suc i))"
  using do_request_progress [OF attempt_world_do_request [of w et p i], of et p]
  by (simp add: replicate_append_same)

lemma after_failure_sent_slept:
  "sent (after_failure x v) = sent v" "slept (after_failure x v) = slept v"
  by (cases x; simp add: print_def)+

lemma backoffs_values: "backoffs 1 = []" "backoffs 2 = [1]" "backoffs 3 = [1, 2]"
  by (simp_all add: backoffs_def INITIAL_BACKOFF_def BACKOFF_MULTIPLIER_def upt_rec
      numeral_2_eq_2 numeral_3_eq_3)

lemma attempt_world_Suc_sent_slept:
  "sent (attempt_world func w (Suc i)) = sent (snd (func (attempt_world func w i)))"
  "slept (attempt_world func w (Suc i)) =
     slept (snd (func (attempt_world func w i))) @ [INITIAL_BACKOFF * BACKOFF_MULTIPLIER ^ i]"
  by (simp_all add: sleep_def print_def after_failure_sent_slept split: prod.splits)

text \<open>
  C2. The retrying transport calls its function in the worlds \<open>attempt_world func w 0\<close>,
  \<open>1\<close>, \<open>2\<close>: the sleep of \<open>INITIAL_BACKOFF * BACKOFF_MULTIPLIER ^ (n - 1)\<close> seconds lies
  between attempt \<open>n\<close> and attempt \<open>n + 1\<close>, so the sleeps before attempts 2 and 3 last
  1 and 2. When all three attempts fail with a failure that is retried,
  \<open>MaxRetriesException\<close> is raised in the world the third attempt left, with no
  fourth call and no further sleep. When the k-th attempt is the first to succeed, its
  response is returned in the world that attempt left. For \<open>do_request\<close> this means:
  attempt \<open>i + 1\<close> is made after \<open>i\<close> requests and the sleeps \<open>1, 2, ...\<close> of the
  attempts before it; three failures make exactly \<open>MAX_RETRIES = 3\<close> requests with
  sleeps 1 and 2; a success at attempt k makes exactly k requests.
\<close>

theorem retry_attempts_and_backoff:
  "((\<forall>i<3. retryable (fst (func (attempt_world func w i)))) \<longrightarrow>
      wrapper_func func w =
        (Inl MaxRetriesException,
         after_failure (fst (func (attempt_world func w 2))) (snd (func (attempt_world func w 2))))) \<and>
   (1 \<le> k \<and> k \<le> 3 \<and> (\<forall>i<k - 1. retryable (fst (func (attempt_world func w i)))) \<and>
    fst (func (attempt_world func w (k - 1))) = Response code \<longrightarrow>
      wrapper_func func w = (Inr code, snd (func (attempt_world func w (k - 1))))) \<and>
   sent (attempt_world func w (Suc i)) = sent (snd (func (attempt_world func w i))) \<and>
   slept (attempt_world func w (Suc i)) =
     slept (snd (func (attempt_world func w i))) @ [INITIAL_BACKOFF * BACKOFF_MULTIPLIER ^ i] \<and>
   fst (do_request et p (attempt_world (do_request et p) w i)) = outcome w et p i \<and>
   sent (attempt_world (do_request et p) w i) = sent w @ replicate i (make_request w et p) \<and>
   slept (attempt_world (do_request et p) w i) =
     slept w @ map (\<lambda>n. INITIAL_BACKOFF * BACKOFF_MULTIPLIER ^ (n - 1)) [1..<Suc i] \<and>
   sent (snd (do_request et p (attempt_world (do_request et p) w i))) =
     sent w @ replicate (Suc i) (make_request w et p) \<and>
   slept (snd (do_request et p (attempt_world (do_request et p) w i))) =
     slept w @ map (\<lambda>n. INITIAL_BACKOFF * BACKOFF_MULTIPLIER ^ (n - 1)) [1..<Suc i] \<and>
   map (\<lambda>n. INITIAL_BACKOFF * BACKOFF_MULTIPLIER ^ (n - 1)) [1..<3] = [1, 2] \<and>
   ((\<forall>i<3. retryable (outcome w et p i)) \<longrightarrow>
      (\<exists>w'. wrapper_func (do_request et p) w = (Inl MaxRetriesException, w') \<and>
            sent w' = sent w @ replicate (nat MAX_RETRIES) (make_request w et p) \<and>
            slept w' = slept w @ [1, 2])) \<and>
   (1 \<le> k \<and> k \<le> 3 \<and> (\<forall>i<k - 1. retryable (outcome w et p i)) \<and>
    outcome w et p (k - 1) = Response code \<longrightarrow>
      (\<exists>w'. wrapper_func (do_request et p) w = (Inr code, w') \<and>
            sent w' = sent w @ replicate k (make_request w et p) \<and>
            slept w' = slept w @ map (\<lambda>n. INITIAL_BACKOFF * BACKOFF_MULTIPLIER ^ (n - 1)) [1..<k]))"
proof -
  have a: "(\<forall>i<3. retryable (fst (func (attempt_world func w i)))) \<longrightarrow>
      wrapper_func func w =
        (Inl MaxRetriesException,
         after_failure (fst (func (attempt_world func w 2))) (snd (func (attempt_world func w 2))))"
    using loop_exhausted [of func w] by blast
  have b: "1 \<le> k \<and> k \<le> 3 \<and> (\<forall>i<k - 1. retryable (fst (func (attempt_world func w i)))) \<and>
    fst (func (attempt_world func w (k - 1))) = Response code \<longrightarrow>
      wrapper_func func w = (Inr code, snd (func (attempt_world func w (k - 1))))"
  proof
    assume h: "1 \<le> k \<and> k \<le> 3 \<and> (\<forall>i<k - 1. retryable (fst (func (attempt_world func w i)))) \<and>
      fst (func (attempt_world func w (k - 1))) = Response code"
    then have "k - 1 < 3" and "\<not> retryable (fst (func (attempt_world func w (k - 1))))" by auto
    from loop_final [where func = func and w = w and k = "k - 1", OF this(1) _ this(2)] h
    show "wrapper_func func w = (Inr code, snd (func (attempt_world func w (k - 1))))" by simp
  qed
  from attempt_do_request [of et p w i] obtain v where
    d: "do_request et p (attempt_world (do_request et p) w i) = (outcome w et p i, v)"
    and pv: "progress w v (replicate (Suc i) (make_request w et p)) (backoffs (Suc i))"
    by blast
  have c: "fst (do_request et p (attempt_world (do_request et p) w i)) = outcome w et p i \<and>
   sent (attempt_world (do_request et p) w i) = sent w @ replicate i (make_request w et p) \<and>
   slept (attempt_world (do_request et p) w i) =
     slept w @ map (\<lambda>n. INITIAL_BACKOFF * BACKOFF_MULTIPLIER ^ (n - 1)) [1..<Suc i] \<and>
   sent (snd (do_request et p (attempt_world (do_request et p) w i))) =
     sent w @ replicate (Suc i) (make_request w et p) \<and>
   slept (snd (do_request et p (attempt_world (do_request et p) w i))) =
     slept w @ map (\<lambda>n. INITIAL_BACKOFF * BACKOFF_MULTIPLIER ^ (n - 1)) [1..<Suc i]"
    using attempt_world_do_request [of w et p i] d pv
    unfolding backoffs_def [symmetric] by (simp add: progress_def)
  have e: "map (\<lambda>n. INITIAL_BACKOFF * BACKOFF_MULTIPLIER ^ (n - 1)) [1..<3] = [1, 2]"
    using backoffs_values(3) by (simp add: backoffs_def)
  show ?thesis
    using a b c e attempt_world_Suc_sent_slept [of func w i] retry_totals [of w et p k code]
    by blast
qed

lemma attempt_outcome:
  "fst (do_request et p (attempt_world (do_request et p) w i)) = outcome w et p i"
  using attempt_do_request [of et p w i] by auto

theorem retry_attempts_and_backoff_witness:
  "wrapper_func (do_request OTHER ''payload'') (scripted_world []) =
     (Inl MaxRetriesException,
      after_failure
        (fst (do_request OTHER ''payload'' (attempt_world (do_request OTHER ''payload'') (scripted_world []) 2)))
        (snd (do_request OTHER ''payload'' (attempt_world (do_request OTHER ''payload'') (scripted_world []) 2)))) \<and>
   slept (attempt_world (do_request OTHER ''payload'') (scripted_world []) 0) = [] \<and>
   slept (attempt_world (do_request OTHER ''payload'') (scripted_world []) 1) = [1] \<and>
   slept (attempt_world (do_request OTHER ''payload'') (scripted_world []) 2) = [1, 2] \<and>
   length (sent (attempt_world (do_request OTHER ''payload'') (scripted_world []) 2)) = 2 \<and>
   length (sent (snd (wrapper_func (do_request OTHER ''payload'') (scripted_world [])))) = 3 \<and>
   slept (snd (wrapper_func (do_request OTHER ''payload'') (scripted_world []))) = [1, 2] \<and>
   wrapper_func (do_request OTHER ''payload'')
       (scripted_world [URLError ''timed out'', URLError ''timed out'', Response 200]) =
     (Inr 200,
      snd (do_request OTHER ''payload''
            (attempt_world (do_request OTHER ''payload'')
               (scripted_world [URLError ''timed out'', URLError ''timed out'', Response 200]) 2))) \<and>
   length (sent (snd (wrapper_func (do_request OTHER ''payload'')
          (scripted_world [URLError ''timed out'', URLError ''timed out'', Response 200])))) = 3 \<and>
   slept (snd (wrapper_func (do_request OTHER ''payload'')
          (scripted_world [URLError ''timed out'', URLError ''timed out'', Response 200]))) = [1, 2]"
proof -
  let ?p = "''payload''"
  let ?F = "do_request OTHER ?p"
  let ?down = "scripted_world []"
  let ?flaky = "scripted_world [URLError ''timed out'', URLError ''timed out'', Response 200]"
  have d: "\<forall>i<3. retryable (fst (?F (attempt_world ?F ?down i)))"
    by (simp add: attempt_outcome outcome_scripted)
  have d': "\<forall>i<3. retryable (outcome ?down OTHER ?p i)"
    by (simp add: outcome_scripted)
  have f: "1 \<le> (3::nat) \<and> (3::nat) \<le> 3 \<and> (\<forall>i<3 - 1. retryable (fst (?F (attempt_world ?F ?flaky i)))) \<and>
    fst (?F (attempt_world ?F ?flaky (3 - 1))) = Response 200"
    by (auto simp: attempt_outcome outcome_scripted nth_Cons')
  have f': "1 \<le> (3::nat) \<and> (3::nat) \<le> 3 \<and> (\<forall>i<3 - 1. retryable (outcome ?flaky OTHER ?p i)) \<and>
    outcome ?flaky OTHER ?p (3 - 1) = Response 200"
    by (auto simp: outcome_scripted nth_Cons')
  note down0 = retry_attempts_and_backoff [of ?F ?down 3 200 0 OTHER ?p]
  note down1 = retry_attempts_and_backoff [of ?F ?down 3 200 1 OTHER ?p]
  note down2 = retry_attempts_and_backoff [of ?F ?down 3 200 2 OTHER ?p]
  note flaky2 = retry_attempts_and_backoff [of ?F ?flaky 3 200 2 OTHER ?p]
  have r1: "wrapper_func ?F ?down =
     (Inl MaxRetriesException,
      after_failure (fst (?F (attempt_world ?F ?down 2))) (snd (?F (attempt_world ?F ?down 2))))"
    using down2 d by blast
  have s0: "slept (attempt_world ?F ?down 0) = []" by (simp add: scripted_world_def)
  have s1: "slept (attempt_world ?F ?down 1) = [1]"
    using down1 by (simp add: scripted_world_def INITIAL_BACKOFF_def)
  have s2: "slept (attempt_world ?F ?down 2) = [1, 2] \<and> length (sent (attempt_world ?F ?down 2)) = 2"
    using down2 by (simp add: scripted_world_def)
  have t1: "length (sent (snd (wrapper_func ?F ?down))) = 3 \<and> slept (snd (wrapper_func ?F ?down)) = [1, 2]"
    using down2 d' by (auto simp: scripted_world_def MAX_RETRIES_def)
  have r2: "wrapper_func ?F ?flaky = (Inr 200, snd (?F (attempt_world ?F ?flaky 2)))"
    using flaky2 f by simp
  have t2: "length (sent (snd (wrapper_func ?F ?flaky))) = 3 \<and> slept (snd (wrapper_func ?F ?flaky)) = [1, 2]"
    using flaky2 f' by (auto simp: scripted_world_def)
  show ?thesis using r1 s0 s1 s2 t1 r2 t2 by blast
qed

subsection \<open>Classification of HTTP failures\<close>

text \<open>
  C4. Let attempt k (one of the three) follow k - 1 transient failures, that is
  \<open>URLError\<close>s or 5xx responses; it is made in \<open>attempt_world func w (k - 1)\<close>. If its
  answer is an \<open>HTTPError\<close> with a 4xx code other than 429, \<open>BadRequestException\<close> is
  raised; if it is 429, \<open>ThrottlingException\<close> is raised; if it is a response, it is
  returned: in each case at once, in the very world the attempt left, with no sleep and
  no further call. If the answer is transient and k < 3, nothing is sent but the
  backoff is slept, and the next attempt is made in the world so reached; if k = 3,
  \<open>MaxRetriesException\<close> is raised. For \<open>do_request\<close>, the world that attempt k leaves
  has k requests and the k - 1 sleeps \<open>backoffs k\<close>: none on the first attempt.
\<close>

theorem http_failure_classification:
  assumes "1 \<le> k" "k \<le> 3" "\<forall>i<k - 1. transient (fst (func (attempt_world func w i)))"
  shows
  "(fst (func (attempt_world func w (k - 1))) = HTTPError code msg \<and>
    400 \<le> code \<and> code < 500 \<and> code \<noteq> 429 \<longrightarrow>
      (\<exists>m. wrapper_func func w =
            (Inl (BadRequestException m), snd (func (attempt_world func w (k - 1)))))) \<and>
   (fst (func (attempt_world func w (k - 1))) = HTTPError 429 msg \<longrightarrow>
      (\<exists>m. wrapper_func func w =
            (Inl (ThrottlingException m), snd (func (attempt_world func w (k - 1)))))) \<and>
   (fst (func (attempt_world func w (k - 1))) = Response code \<longrightarrow>
      wrapper_func func w = (Inr code, snd (func (attempt_world func w (k - 1))))) \<and>
   (transient (fst (func (attempt_world func w (k - 1)))) \<and> k = 3 \<longrightarrow>
      wrapper_func func w =
        (Inl MaxRetriesException,
         after_failure (fst (func (attempt_world func w (k - 1))))
           (snd (func (attempt_world func w (k - 1)))))) \<and>
   (transient (fst (func (attempt_world func w (k - 1)))) \<and> k < 3 \<longrightarrow>
      sent (attempt_world func w k) = sent (snd (func (attempt_world func w (k - 1)))) \<and>
      slept (attempt_world func w k) =
        slept (snd (func (attempt_world func w (k - 1)))) @
        [INITIAL_BACKOFF * BACKOFF_MULTIPLIER ^ (k - 1)] \<and>
      (\<forall>c. fst (func (attempt_world func w k)) = Response c \<longrightarrow>
           wrapper_func func w = (Inr c, snd (func (attempt_world func w k))))) \<and>
   fst (do_request et p (attempt_world (do_request et p) w (k - 1))) = outcome w et p (k - 1) \<and>
   sent (snd (do_request et p (attempt_world (do_request et p) w (k - 1)))) =
     sent w @ replicate k (make_request w et p) \<and>
   slept (snd (do_request et p (attempt_world (do_request et p) w (k - 1)))) =
     slept w @ backoffs k \<and>
   backoffs 1 = [] \<and> backoffs 2 = [1] \<and> backoffs 3 = [1, 2]"
proof -
  let ?x = "fst (func (attempt_world func w (k - 1)))"
  let ?v = "snd (func (attempt_world func w (k - 1)))"
  have lt: "k - 1 < 3" using assms(2) by simp
  have pre: "\<forall>i<k - 1. retryable (fst (func (attempt_world func w i)))"
    using assms(3) transient_retryable by blast
  have fin: "\<not> retryable ?x \<Longrightarrow> wrapper_func func w = (verdict ?x, ?v)"
    using loop_final [where func = func and w = w and k = "k - 1", OF lt pre] by simp
  have c1: "?x = HTTPError code msg \<and> 400 \<le> code \<and> code < 500 \<and> code \<noteq> 429 \<longrightarrow>
      (\<exists>m. wrapper_func func w = (Inl (BadRequestException m), ?v))"
  proof
    assume a: "?x = HTTPError code msg \<and> 400 \<le> code \<and> code < 500 \<and> code \<noteq> 429"
    then have "\<not> retryable ?x" by simp
    from fin [OF this] a show "\<exists>m. wrapper_func func w = (Inl (BadRequestException m), ?v)"
      by (auto split: if_splits)
  qed
  have c2: "?x = HTTPError 429 msg \<longrightarrow>
      (\<exists>m. wrapper_func func w = (Inl (ThrottlingException m), ?v))"
  proof
    assume a: "?x = HTTPError 429 msg"
    then have "\<not> retryable ?x" by simp
    from fin [OF this] a show "\<exists>m. wrapper_func func w = (Inl (ThrottlingException m), ?v)"
      by auto
  qed
  have c3: "?x = Response code \<longrightarrow> wrapper_func func w = (Inr code, ?v)"
  proof
    assume a: "?x = Response code"
    then have "\<not> retryable ?x" by simp
    from fin [OF this] a show "wrapper_func func w = (Inr code, ?v)" by simp
  qed
  have c4: "transient ?x \<and> k = 3 \<longrightarrow>
      wrapper_func func w = (Inl MaxRetriesException, after_failure ?x ?v)"
  proof
    assume a: "transient ?x \<and> k = 3"
    have "\<forall>i<3. retryable (fst (func (attempt_world func w i)))"
    proof (intro allI impI)
      fix i :: nat assume "i < 3"
      then consider "i < k - 1" | "i = k - 1" using a by force
      then show "retryable (fst (func (attempt_world func w i)))"
        using pre a transient_retryable by cases auto
    qed
    from loop_exhausted [OF this] a
    show "wrapper_func func w = (Inl MaxRetriesException, after_failure ?x ?v)" by simp
  qed
  have c5: "transient ?x \<and> k < 3 \<longrightarrow>
      sent (attempt_world func w k) = sent ?v \<and>
      slept (attempt_world func w k) = slept ?v @ [INITIAL_BACKOFF * BACKOFF_MULTIPLIER ^ (k - 1)] \<and>
      (\<forall>c. fst (func (attempt_world func w k)) = Response c \<longrightarrow>
           wrapper_func func w = (Inr c, snd (func (attempt_world func w k))))"
  proof (intro impI conjI allI)
    assume a: "transient ?x \<and> k < 3"
    obtain j where k: "k = Suc j" using assms(1) by (cases k) auto
    show "sent (attempt_world func w k) = sent ?v"
      using attempt_world_Suc_sent_slept(1) [of func w j] k by simp
    show "slept (attempt_world func w k) = slept ?v @ [INITIAL_BACKOFF * BACKOFF_MULTIPLIER ^ (k - 1)]"
      using attempt_world_Suc_sent_slept(2) [of func w j] k by simp
    fix c assume r: "fst (func (attempt_world func w k)) = Response c"
    have all: "\<forall>i<k. retryable (fst (func (attempt_world func w i)))"
    proof (intro allI impI)
      fix i assume "i < k"
      then consider "i < k - 1" | "i = k - 1" by force
      then show "retryable (fst (func (attempt_world func w i)))"
        using pre a transient_retryable by cases auto
    qed
    have "k < 3" using a by simp
    moreover have "\<not> retryable (fst (func (attempt_world func w k)))" using r by simp
    ultimately show "wrapper_func func w = (Inr c, snd (func (attempt_world func w k)))"
      using loop_final [where func = func and w = w and k = k, OF _ all] r by simp
  qed
  obtain j where kj: "k = Suc j" using assms(1) by (cases k) auto
  from attempt_do_request [of et p w j] obtain v where
    d: "do_request et p (attempt_world (do_request et p) w j) = (outcome w et p j, v)"
    and pv: "progress w v (replicate (Suc j) (make_request w et p)) (backoffs (Suc j))"
    by blast
  have c6: "fst (do_request et p (attempt_world (do_request et p) w (k - 1))) = outcome w et p (k - 1) \<and>
      sent (snd (do_request et p (attempt_world (do_request et p) w (k - 1)))) =
        sent w @ replicate k (make_request w et p) \<and>
      slept (snd (do_request et p (attempt_world (do_request et p) w (k - 1)))) =
        slept w @ backoffs k"
    using d pv kj by (simp add: progress_def)
  show ?thesis using c1 c2 c3 c4 c5 c6 backoffs_values by blast
qed

theorem http_failure_classification_witness:
  "(\<exists>m. wrapper_func (do_request OTHER ''payload'') (scripted_world [HTTPError 403 ''Forbidden'']) =
        (Inl (BadRequestException m),
         snd (do_request OTHER ''payload'' (scripted_world [HTTPError 403 ''Forbidden''])))) \<and>
   length (sent (snd (wrapper_func (do_request OTHER ''payload'')
            (scripted_world [HTTPError 403 ''Forbidden''])))) = 1 \<and>
   slept (snd (wrapper_func (do_request OTHER ''payload'')
            (scripted_world [HTTPError 403 ''Forbidden'']))) = [] \<and>
   (\<exists>m. wrapper_func (do_request OTHER ''payload'')
            (scripted_world [HTTPError 503 ''Service Unavailable'', HTTPError 429 ''Too Many Requests'']) =
        (Inl (ThrottlingException m),
         snd (do_request OTHER ''payload''
               (attempt_world (do_request OTHER ''payload'')
                 (scripted_world [HTTPError 503 ''Service Unavailable'', HTTPError 429 ''Too Many Requests''])
                 1)))) \<and>
   slept (attempt_world (do_request OTHER ''payload'')
            (scripted_world [HTTPError 503 ''Service Unavailable'', HTTPError 429 ''Too Many Requests'']) 1)
     = [1] \<and>
   length (sent (snd (wrapper_func (do_request OTHER ''payload'')
            (scripted_world [HTTPError 503 ''Service Unavailable'', HTTPError 429 ''Too Many Requests''])))) = 2 \<and>
   slept (snd (wrapper_func (do_request OTHER ''payload'')
            (scripted_world [HTTPError 503 ''Service Unavailable'', HTTPError 429 ''Too Many Requests'']))) = [1] \<and>
   fst (wrapper_func (do_request OTHER ''payload'')
          (scripted_world [URLError ''timed out'', HTTPError 500 ''Internal Server Error'', Response 202]))
     = Inr 202 \<and>
   slept (snd (wrapper_func (do_request OTHER ''payload'')
          (scripted_world [URLError ''timed out'', HTTPError 500 ''Internal Server Error'', Response 202])))
     = [1, 2] \<and>
   fst (wrapper_func (do_request OTHER ''payload'') (scripted_world [])) = Inl MaxRetriesException \<and>
   length (sent (snd (wrapper_func (do_request OTHER ''payload'') (scripted_world [])))) = 3 \<and>
   slept (snd (wrapper_func (do_request OTHER ''payload'') (scripted_world []))) = [1, 2]"
proof -
  let ?p = "''payload''"
  let ?F = "do_request OTHER ?p"
  let ?w1 = "scripted_world [HTTPError 403 ''Forbidden'']"
  let ?w2 = "scripted_world [HTTPError 503 ''Service Unavailable'', HTTPError 429 ''Too Many Requests'']"
  let ?w3 = "scripted_world [URLError ''timed out'', HTTPError 500 ''Internal Server Error'', Response 202]"
  let ?w4 = "scripted_world []"
  have h1: "\<forall>i<1 - 1. transient (fst (?F (attempt_world ?F ?w1 i)))" by simp
  have o1: "fst (?F (attempt_world ?F ?w1 (1 - 1))) = HTTPError 403 ''Forbidden'' \<and> (400::int) \<le> 403 \<and>
            (403::int) < 500 \<and> (403::int) \<noteq> 429"
    using attempt_outcome [of OTHER ?p ?w1 0] by (simp add: outcome_scripted)
  note t1 = http_failure_classification [of 1 ?F ?w1 403 "''Forbidden''" OTHER ?p, OF _ _ h1]
  from t1 o1 obtain m1 where
    r1: "wrapper_func ?F ?w1 = (Inl (BadRequestException m1), snd (?F ?w1))"
    by auto
  have q1: "length (sent (snd (?F ?w1))) = 1 \<and> slept (snd (?F ?w1)) = []"
    using t1 by (simp add: scripted_world_def)
  have h2: "\<forall>i<2 - 1. transient (fst (?F (attempt_world ?F ?w2 i)))"
    using attempt_outcome [of OTHER ?p ?w2 0] by (simp add: outcome_scripted)
  have o2: "fst (?F (attempt_world ?F ?w2 (2 - 1))) = HTTPError 429 ''Too Many Requests''"
    using attempt_outcome [of OTHER ?p ?w2 1] by (simp add: outcome_scripted)
  note t2 = http_failure_classification [of 2 ?F ?w2 0 "''Too Many Requests''" OTHER ?p, OF _ _ h2]
  from t2 o2 obtain m2 where
    r2: "wrapper_func ?F ?w2 = (Inl (ThrottlingException m2), snd (?F (attempt_world ?F ?w2 1)))"
    by auto
  have q2: "length (sent (snd (?F (attempt_world ?F ?w2 1)))) = 2 \<and>
            slept (snd (?F (attempt_world ?F ?w2 1))) = [1]"
    using t2 by (simp add: scripted_world_def)
  have o2': "transient (fst (?F (attempt_world ?F ?w2 (1 - 1)))) \<and> (1::nat) < 3"
    using attempt_outcome [of OTHER ?p ?w2 0] by (simp add: outcome_scripted)
  note t2' = http_failure_classification [of 1 ?F ?w2 0 "[]" OTHER ?p]
  have s2: "slept (attempt_world ?F ?w2 1) = [1]"
    using t2' o2' by (simp add: scripted_world_def INITIAL_BACKOFF_def)
  have h3: "\<forall>i<3 - 1. transient (fst (?F (attempt_world ?F ?w3 i)))"
    by (auto simp: attempt_outcome outcome_scripted nth_Cons')
  have o3: "fst (?F (attempt_world ?F ?w3 (3 - 1))) = Response 202"
    using attempt_outcome [of OTHER ?p ?w3 2] by (simp add: outcome_scripted)
  note t3 = http_failure_classification [of 3 ?F ?w3 202 "[]" OTHER ?p, OF _ _ h3]
  from t3 o3 have r3: "wrapper_func ?F ?w3 = (Inr 202, snd (?F (attempt_world ?F ?w3 2)))"
    by simp
  have q3: "slept (snd (?F (attempt_world ?F ?w3 2))) = [1, 2]"
    using t3 by (simp add: scripted_world_def)
  have h4: "\<forall>i<3 - 1. transient (fst (?F (attempt_world ?F ?w4 i)))"
    by (simp add: attempt_outcome outcome_scripted)
  have o4: "transient (fst (?F (attempt_world ?F ?w4 (3 - 1)))) \<and> (3::nat) = 3"
    using attempt_outcome [of OTHER ?p ?w4 2] by (simp add: outcome_scripted)
  note t4 = http_failure_classification [of 3 ?F ?w4 0 "[]" OTHER ?p, OF _ _ h4]
  from t4 o4 have r4: "wrapper_func ?F ?w4 =
      (Inl MaxRetriesException,
       after_failure (fst (?F (attempt_world ?F ?w4 2))) (snd (?F (attempt_world ?F ?w4 2))))"
    by simp
  have q4: "length (sent (snd (?F (attempt_world ?F ?w4 2)))) = 3 \<and>
            slept (snd (?F (attempt_world ?F ?w4 2))) = [1, 2]"
    using t4 by (simp add: scripted_world_def)
  show ?thesis
    using r1 q1 r2 q2 s2 r3 q3 r4 q4 by (simp add: after_failure_sent_slept)
qed

subsection \<open>Payload splitting\<close>

lemma generate_payloads_small:
  "length (serialize pf d) < MAX_PAYLOAD_SIZE \<Longrightarrow>
   generate_payloads pf d = Some (Inr [serialize pf d])"
  by (subst generate_payloads.simps) (simp add: Let_def)

lemma generate_payloads_large:
  "\<not> length (serialize pf d) < MAX_PAYLOAD_SIZE \<Longrightarrow>
   generate_payloads pf d =
     (case split pf d of
        Inl e \<Rightarrow> Some (Inl e)
      | Inr (d0, d1) \<Rightarrow>
          Option.bind (generate_payloads pf d0) (\<lambda>r0.
            case r0 of
              Inl e \<Rightarrow> Some (Inl e)
            | Inr p0 \<Rightarrow>
                Option.bind (generate_payloads pf d1) (\<lambda>r1.
                  case r1 of Inl e \<Rightarrow> Some (Inl e) | Inr p1 \<Rightarrow> Some (Inr (p0 @ p1)))))"
  by (subst generate_payloads.simps) (simp add: Let_def)

lemma split_entry_with:
  assumes "json_loads pf (data_entry d) = Some (entry_with kvs evs)"
  shows "split pf d =
         Inr (\<lparr>data_context = data_context d,
                data_entry = json_dumps pf (entry_with kvs (take (length evs div 2) evs))\<rparr>,
              \<lparr>data_context = data_context d,
                data_entry = json_dumps pf (entry_with kvs (drop (length evs div 2) evs))\<rparr>)"
  by (simp add: split_def assms entry_with_def bind_exn_def reconstruct_data_def Let_def
      update_conv' update_last)

lemma split_failure_split:
  "split_failure pf (data_entry d) = Some e \<Longrightarrow> split pf d = Inl e"
  by (auto simp: split_failure_def split_def bind_exn_def reconstruct_data_def Let_def
      split: option.splits json.splits)

lemma split_failure_kinds:
  "split_failure pf s = Some e \<Longrightarrow> e \<in> {JSONDecodeError, KeyError, TypeError}"
  by (auto simp: split_failure_def split: option.splits json.splits)

lemma payload_logEvents_serialize:
  assumes "reads_back pf (data_context d) kvs evs0"
    and "json_loads pf (data_entry d) = Some (entry_with kvs evs)"
  shows "payload_logEvents pf (serialize pf d) = Some evs"
proof -
  have "data_json \<lparr>data_context = data_context d, data_entry = data_entry d\<rparr> = data_json d"
    by (simp add: data_json_def)
  with assms(1) have "json_loads pf (json_dumps pf (data_json d)) = Some (data_json d)"
    unfolding reads_back_def by metis
  with assms show ?thesis
    by (simp add: payload_logEvents_def serialize_def reads_back_def)
       (simp add: data_json_def entry_with_def update_conv')
qed

lemma carried_logEvents_append:
  "carried_logEvents pf p0 = Some a \<Longrightarrow> carried_logEvents pf p1 = Some b \<Longrightarrow>
   carried_logEvents pf (p0 @ p1) = Some (a @ b)"
  by (induction p0 arbitrary: a) (auto split: option.splits)

lemma bind_both_Inr:
  assumes "Option.bind a (\<lambda>r0. case r0 of Inl e \<Rightarrow> Some (Inl e)
             | Inr p0 \<Rightarrow> Option.bind b (\<lambda>r1. case r1 of Inl e \<Rightarrow> Some (Inl e)
                                                | Inr p1 \<Rightarrow> Some (Inr (p0 @ p1)))) = Some (Inr ps)"
  shows "\<exists>p0 p1. a = Some (Inr p0) \<and> b = Some (Inr p1) \<and> ps = p0 @ p1"
proof (cases a)
  case None
  with assms show ?thesis by simp
next
  case (Some r0)
  show ?thesis
  proof (cases r0)
    case (Inl e)
    with Some assms show ?thesis by simp
  next
    case (Inr p0)
    show ?thesis
    proof (cases b)
      case None
      with Some Inr assms show ?thesis by simp
    next
      case (Some r1)
      with \<open>a = Some r0\<close> Inr assms show ?thesis by (cases r1) auto
    qed
  qed
qed

lemma carried_logEvents_generate:
  assumes gp: "generate_payloads pf d = Some r"
  shows "reads_back pf (data_context d) kvs evs0 \<longrightarrow>
         (\<forall>evs ps. set evs \<subseteq> set evs0 \<longrightarrow>
            json_loads pf (data_entry d) = Some (entry_with kvs evs) \<longrightarrow> r = Inr ps \<longrightarrow>
            carried_logEvents pf ps = Some evs)"
proof -
  let ?P = "\<lambda>pf d r. reads_back pf (data_context d) kvs evs0 \<longrightarrow>
     (\<forall>evs ps. set evs \<subseteq> set evs0 \<longrightarrow>
        json_loads pf (data_entry d) = Some (entry_with kvs evs) \<longrightarrow> r = Inr ps \<longrightarrow>
        carried_logEvents pf ps = Some evs)"
  show "?P pf d r"
  proof (rule generate_payloads.raw_induct [where P = ?P, OF _ gp])
    fix gp' :: "platform \<Rightarrow> data \<Rightarrow> (exn + string list) option"
    fix pf d r
    assume IH: "\<And>pf d y. gp' pf d = Some y \<Longrightarrow> ?P pf d y"
    assume step: "(let payload = serialize pf d
      in if length payload < MAX_PAYLOAD_SIZE then Some (Inr [payload])
         else case split pf d of Inl e \<Rightarrow> Some (Inl e)
              | Inr (d0, d1) \<Rightarrow>
                  Option.bind (gp' pf d0)
                   (\<lambda>r0. case r0 of Inl e \<Rightarrow> Some (Inl e)
                         | Inr p0 \<Rightarrow>
                             Option.bind (gp' pf d1)
                              (\<lambda>r1. case r1 of Inl e \<Rightarrow> Some (Inl e)
                                    | Inr p1 \<Rightarrow> Some (Inr (p0 @ p1))))) = Some r"
    show "?P pf d r"
    proof (intro impI allI)
      fix evs ps
      assume rb: "reads_back pf (data_context d) kvs evs0"
        and sub: "set evs \<subseteq> set evs0"
        and ld: "json_loads pf (data_entry d) = Some (entry_with kvs evs)"
        and r: "r = Inr ps"
      let ?h = "length evs div 2"
      let ?d0 = "\<lparr>data_context = data_context d,
                data_entry = json_dumps pf (entry_with kvs (take ?h evs))\<rparr>"
      let ?d1 = "\<lparr>data_context = data_context d,
                data_entry = json_dumps pf (entry_with kvs (drop ?h evs))\<rparr>"
      show "carried_logEvents pf ps = Some evs"
      proof (cases "length (serialize pf d) < MAX_PAYLOAD_SIZE")
        case True
        with step r have "ps = [serialize pf d]" by (simp add: Let_def)
        then show ?thesis using payload_logEvents_serialize [OF rb ld] by simp
      next
        case False
        have sp: "split pf d = Inr (?d0, ?d1)" by (rule split_entry_with [OF ld])
        from step False sp have b: "Option.bind (gp' pf ?d0)
                   (\<lambda>r0. case r0 of Inl e \<Rightarrow> Some (Inl e)
                         | Inr p0 \<Rightarrow>
                             Option.bind (gp' pf ?d1)
                              (\<lambda>r1. case r1 of Inl e \<Rightarrow> Some (Inl e)
                                    | Inr p1 \<Rightarrow> Some (Inr (p0 @ p1)))) = Some (Inr ps)"
          by (simp add: Let_def r)
        then obtain p0 p1 where g0: "gp' pf ?d0 = Some (Inr p0)" and g1: "gp' pf ?d1 = Some (Inr p1)"
          and ps: "ps = p0 @ p1"
          using bind_both_Inr by blast
        have e: "entry_reads_back pf kvs evs0" using rb by (simp add: reads_back_def)
        have s0: "set (take ?h evs) \<subseteq> set evs0" using sub set_take_subset by fastforce
        have s1: "set (drop ?h evs) \<subseteq> set evs0" using sub set_drop_subset by fastforce
        have l0: "json_loads pf (data_entry ?d0) = Some (entry_with kvs (take ?h evs))"
          using e s0 by (simp add: entry_reads_back_def)
        have l1: "json_loads pf (data_entry ?d1) = Some (entry_with kvs (drop ?h evs))"
          using e s1 by (simp add: entry_reads_back_def)
        have rb0: "reads_back pf (data_context ?d0) kvs evs0" using rb by simp
        have rb1: "reads_back pf (data_context ?d1) kvs evs0" using rb by simp
        have c0: "carried_logEvents pf p0 = Some (take ?h evs)"
          using IH [OF g0] rb0 s0 l0 by blast
        have c1: "carried_logEvents pf p1 = Some (drop ?h evs)"
          using IH [OF g1] rb1 s1 l1 by blast
        show ?thesis
          using carried_logEvents_append [OF c0 c1] ps by simp
      qed
    qed
  qed
qed

text \<open>Every payload that is returned is below the limit.\<close>

lemma generate_payloads_below_limit:
  assumes gp: "generate_payloads pf d = Some r"
  shows "\<forall>ps. r = Inr ps \<longrightarrow> (\<forall>p \<in> set ps. length p < MAX_PAYLOAD_SIZE)"
proof -
  let ?P = "\<lambda>(pf :: platform) (d :: data) r.
              \<forall>ps. r = Inr ps \<longrightarrow> (\<forall>p \<in> set ps. length p < MAX_PAYLOAD_SIZE)"
  show "?P pf d r"
  proof (rule generate_payloads.raw_induct [where P = ?P, OF _ gp])
    fix gp' :: "platform \<Rightarrow> data \<Rightarrow> (exn + string list) option"
    fix pf d r
    assume IH: "\<And>pf d y. gp' pf d = Some y \<Longrightarrow> ?P pf d y"
    assume step: "(let payload = serialize pf d
      in if length payload < MAX_PAYLOAD_SIZE then Some (Inr [payload])
         else case split pf d of Inl e \<Rightarrow> Some (Inl e)
              | Inr (d0, d1) \<Rightarrow>
                  Option.bind (gp' pf d0)
                   (\<lambda>r0. case r0 of Inl e \<Rightarrow> Some (Inl e)
                         | Inr p0 \<Rightarrow>
                             Option.bind (gp' pf d1)
                              (\<lambda>r1. case r1 of Inl e \<Rightarrow> Some (Inl e)
                                    | Inr p1 \<Rightarrow> Some (Inr (p0 @ p1))))) = Some r"
    show "?P pf d r"
    proof (intro allI impI)
      fix ps assume r: "r = Inr ps"
      show "\<forall>p \<in> set ps. length p < MAX_PAYLOAD_SIZE"
      proof (cases "length (serialize pf d) < MAX_PAYLOAD_SIZE")
        case True
        with step r show ?thesis by (auto simp: Let_def)
      next
        case False
        show ?thesis
        proof (cases "split pf d")
          case (Inl e)
          with step False r show ?thesis by (simp add: Let_def)
        next
          case (Inr dd)
          obtain d0 d1 where dd: "dd = (d0, d1)" by (cases dd)
          from step False Inr dd r have "Option.bind (gp' pf d0)
                   (\<lambda>r0. case r0 of Inl e \<Rightarrow> Some (Inl e)
                         | Inr p0 \<Rightarrow>
                             Option.bind (gp' pf d1)
                              (\<lambda>r1. case r1 of Inl e \<Rightarrow> Some (Inl e)
                                    | Inr p1 \<Rightarrow> Some (Inr (p0 @ p1)))) = Some (Inr ps)"
            by (simp add: Let_def)
          then obtain p0 p1 where g0: "gp' pf d0 = Some (Inr p0)" and g1: "gp' pf d1 = Some (Inr p1)"
            and ps: "ps = p0 @ p1"
            using bind_both_Inr by blast
          from IH [OF g0] IH [OF g1] ps show ?thesis by auto
        qed
      qed
    qed
  qed
qed

text \<open>
  When every single event fits, \<open>_generate_payloads\<close> does return: a list of two or
  more events is split into two shorter lists, neither of them empty.
\<close>

lemma generate_payloads_returns:
  assumes rb: "entry_reads_back pf kvs evs0"
    and fit: "\<And>ev. ev \<in> set evs0 \<Longrightarrow>
               length (serialize pf \<lparr>data_context = ctx,
                  data_entry = json_dumps pf (entry_with kvs [ev])\<rparr>) < MAX_PAYLOAD_SIZE"
  shows "set evs \<subseteq> set evs0 \<Longrightarrow> data_context d = ctx \<Longrightarrow>
         json_loads pf (data_entry d) = Some (entry_with kvs evs) \<Longrightarrow>
         (length evs \<le> 1 \<Longrightarrow> length (serialize pf d) < MAX_PAYLOAD_SIZE) \<Longrightarrow>
         \<exists>ps. generate_payloads pf d = Some (Inr ps)"
proof (induction "length evs" arbitrary: evs d rule: less_induct)
  case less
  show ?case
  proof (cases "length (serialize pf d) < MAX_PAYLOAD_SIZE")
    case True
    then show ?thesis by (simp add: generate_payloads_small)
  next
    case False
    with less.prems(4) have len: "2 \<le> length evs" by fastforce
    let ?h = "length evs div 2"
    let ?d0 = "\<lparr>data_context = data_context d,
                data_entry = json_dumps pf (entry_with kvs (take ?h evs))\<rparr>"
    let ?d1 = "\<lparr>data_context = data_context d,
                data_entry = json_dumps pf (entry_with kvs (drop ?h evs))\<rparr>"
    have sp: "split pf d = Inr (?d0, ?d1)" by (rule split_entry_with [OF less.prems(3)])
    have s0: "set (take ?h evs) \<subseteq> set evs0" using less.prems(1) set_take_subset by fastforce
    have s1: "set (drop ?h evs) \<subseteq> set evs0" using less.prems(1) set_drop_subset by fastforce
    have l0: "json_loads pf (data_entry ?d0) = Some (entry_with kvs (take ?h evs))"
      using rb s0 by (simp add: entry_reads_back_def)
    have l1: "json_loads pf (data_entry ?d1) = Some (entry_with kvs (drop ?h evs))"
      using rb s1 by (simp add: entry_reads_back_def)
    have one: "length xs \<le> 1 \<Longrightarrow> xs \<noteq> [] \<Longrightarrow> set xs \<subseteq> set evs0 \<Longrightarrow>
               length (serialize pf \<lparr>data_context = data_context d,
                  data_entry = json_dumps pf (entry_with kvs xs)\<rparr>) < MAX_PAYLOAD_SIZE" for xs
    proof -
      assume "length xs \<le> 1" "xs \<noteq> []" "set xs \<subseteq> set evs0"
      then obtain ev where "xs = [ev]" "ev \<in> set evs0"
        by (cases xs) auto
      with fit [of ev] less.prems(2) show ?thesis by simp
    qed
    have n0: "take ?h evs \<noteq> []" using len by auto
    have n1: "drop ?h evs \<noteq> []" using len by auto
    have f0: "length (take ?h evs) \<le> 1 \<Longrightarrow> length (serialize pf ?d0) < MAX_PAYLOAD_SIZE"
      using one [OF _ n0 s0] by simp
    have f1: "length (drop ?h evs) \<le> 1 \<Longrightarrow> length (serialize pf ?d1) < MAX_PAYLOAD_SIZE"
      using one [OF _ n1 s1] by simp
    have "length (take ?h evs) < length evs" using len by simp
    from less.hyps [OF this s0 _ l0 f0] less.prems(2)
    obtain p0 where g0: "generate_payloads pf ?d0 = Some (Inr p0)" by auto
    have "length (drop ?h evs) < length evs" using len by simp
    from less.hyps [OF this s1 _ l1 f1] less.prems(2)
    obtain p1 where g1: "generate_payloads pf ?d1 = Some (Inr p1)" by auto
    show ?thesis
      by (simp add: generate_payloads_large [OF False] sp g0 g1)
  qed
qed

lemma small_platform_reads_back: "reads_back small_platform ctx kvs evs"
  by (simp add: reads_back_def entry_reads_back_def small_platform_def stack_loads_dumps pad_gunzip_gzip)

lemma length_serialize_small_platform:
  "length (serialize small_platform d) =
   600000 * count_list (stack_dumps (data_json d)) CHR ''#'' + 1 + length (stack_dumps (data_json d))"
  by (simp add: serialize_def small_platform_def length_pad_gzip)

lemma example_entry_with:
  "entry_with [(''owner'', JStr ''1''), (''logEvents'', JArr old)] evs = example_entry evs"
  by (simp add: entry_with_def example_entry_def)

lemma example_data_sizes:
  "length (serialize small_platform (example_data [JStr ''a#'', JStr ''b#''])) \<ge> MAX_PAYLOAD_SIZE"
  "length (serialize small_platform (example_data [JStr ''a#''])) < MAX_PAYLOAD_SIZE"
  "length (serialize small_platform (example_data [JStr ''b#''])) < MAX_PAYLOAD_SIZE"
  "length (serialize small_platform (example_data [JStr ''##''])) \<ge> MAX_PAYLOAD_SIZE"
  "length (serialize small_platform (example_data [])) < MAX_PAYLOAD_SIZE"
  by (simp_all add: length_serialize_small_platform example_data_def make_data_def data_json_def
      context_json_def example_context_def example_entry_def stack_dumps_str_def MAX_PAYLOAD_SIZE_def)

lemma split_example_data:
  "split small_platform (example_data evs) =
   Inr (example_data (take (length evs div 2) evs), example_data (drop (length evs div 2) evs))"
proof -
  have "json_loads small_platform (data_entry (example_data evs)) =
        Some (entry_with [(''owner'', JStr ''1''), (''logEvents'', JArr [])] evs)"
    by (simp add: example_data_def make_data_def small_platform_def stack_loads_dumps example_entry_with)
  from split_entry_with [OF this] show ?thesis
    by (simp add: example_entry_with example_data_def make_data_def small_platform_def)
qed

lemma generate_payloads_two_events:
  "generate_payloads small_platform (example_data [JStr ''a#'', JStr ''b#'']) =
   Some (Inr [serialize small_platform (example_data [JStr ''a#'']),
              serialize small_platform (example_data [JStr ''b#''])])"
proof -
  have big: "\<not> length (serialize small_platform (example_data [JStr ''a#'', JStr ''b#''])) < MAX_PAYLOAD_SIZE"
    using example_data_sizes(1) by simp
  have sp: "split small_platform (example_data [JStr ''a#'', JStr ''b#'']) =
            Inr (example_data [JStr ''a#''], example_data [JStr ''b#''])"
    by (simp add: split_example_data)
  show ?thesis
    by (simp add: generate_payloads_large [OF big] sp
        generate_payloads_small [OF example_data_sizes(2)]
        generate_payloads_small [OF example_data_sizes(3)])
qed

text \<open>
  C8. An envelope whose compressed serialisation is below \<open>MAX_PAYLOAD_SIZE\<close> comes
  back from \<open>_generate_payloads\<close> as exactly one payload, and that payload is
  \<open>gzip.compress(json.dumps(data).encode())\<close> itself.
\<close>

theorem small_envelope_single_payload:
  "length (gzip_compress pf (json_dumps pf (data_json d))) < MAX_PAYLOAD_SIZE \<Longrightarrow>
   generate_payloads pf d = Some (Inr [gzip_compress pf (json_dumps pf (data_json d))])"
  using generate_payloads_small [of pf d] by (simp add: serialize_def)

theorem small_envelope_single_payload_witness:
  "length (gzip_compress small_platform (json_dumps small_platform (data_json (example_data [JStr ''a#''])))) = 600356 \<and>
   generate_payloads small_platform (example_data [JStr ''a#'']) =
     Some (Inr [gzip_compress small_platform
                  (json_dumps small_platform (data_json (example_data [JStr ''a#''])))])"
proof -
  have l: "length (gzip_compress small_platform
             (json_dumps small_platform (data_json (example_data [JStr ''a#''])))) = 600356"
    using length_serialize_small_platform [of "example_data [JStr ''a#'']"]
    by (simp add: serialize_def example_data_def make_data_def data_json_def
        context_json_def example_context_def example_entry_def stack_dumps_str_def)
  then have "length (gzip_compress small_platform
             (json_dumps small_platform (data_json (example_data [JStr ''a#''])))) < MAX_PAYLOAD_SIZE"
    by (simp add: MAX_PAYLOAD_SIZE_def)
  from small_envelope_single_payload [OF this] l show ?thesis by simp
qed

subsection \<open>An event that does not fit\<close>

lemma bind_first_Inr:
  assumes "Option.bind a (\<lambda>r0. case r0 of Inl e \<Rightarrow> Some (Inl e)
             | Inr p0 \<Rightarrow> Option.bind b (\<lambda>r1. case r1 of Inl e \<Rightarrow> Some (Inl e)
                                                | Inr p1 \<Rightarrow> Some (Inr (p0 @ p1)))) = Some r"
    and "\<And>r0. a = Some r0 \<Longrightarrow> \<exists>p0. r0 = Inr p0"
  shows "\<exists>p0 r1. a = Some (Inr p0) \<and> b = Some r1 \<and>
           r = (case r1 of Inl e \<Rightarrow> Inl e | Inr p1 \<Rightarrow> Inr (p0 @ p1))"
proof (cases a)
  case None
  with assms(1) show ?thesis by simp
next
  case (Some r0)
  with assms(2) obtain p0 where r0: "r0 = Inr p0" by blast
  show ?thesis
  proof (cases b)
    case None
    with Some r0 assms(1) show ?thesis by simp
  next
    case b: (Some r1)
    with Some r0 assms(1) show ?thesis by (cases r1) auto
  qed
qed

lemma single_event_loop:
  assumes rb: "entry_reads_back pf kvs [ev]"
    and en: "data_entry d = json_dumps pf (entry_with kvs [ev])"
    and big: "MAX_PAYLOAD_SIZE \<le> length (serialize pf d)"
  shows "generate_payloads pf d = None"
proof -
  let ?d0 = "\<lparr>data_context = data_context d, data_entry = json_dumps pf (entry_with kvs [])\<rparr>"
  let ?P = "\<lambda>pf' d' (r :: exn + string list).
              pf' = pf \<longrightarrow> d' \<noteq> d \<and> (d' = ?d0 \<longrightarrow> (\<exists>p. r = Inr p))"
  have d: "d = \<lparr>data_context = data_context d, data_entry = json_dumps pf (entry_with kvs [ev])\<rparr>"
    using en by simp
  have ld: "json_loads pf (data_entry d) = Some (entry_with kvs [ev])"
    using rb en by (simp add: entry_reads_back_def)
  have sp: "split pf d = Inr (?d0, d)"
    using split_entry_with [OF ld] d by simp
  have ld0: "json_loads pf (data_entry ?d0) = Some (entry_with kvs [])"
    using rb by (simp add: entry_reads_back_def)
  have sp0: "split pf ?d0 = Inr (?d0, ?d0)"
    using split_entry_with [OF ld0] by simp
  have nb: "\<not> length (serialize pf d) < MAX_PAYLOAD_SIZE" using big by simp
  have all: "?P pf d r" if gp: "generate_payloads pf d = Some r" for r
  proof (rule generate_payloads.raw_induct [where P = ?P, OF _ gp])
    fix gp' :: "platform \<Rightarrow> data \<Rightarrow> (exn + string list) option"
    fix pf' d' r
    assume IH: "\<And>pf d y. gp' pf d = Some y \<Longrightarrow> ?P pf d y"
    assume step: "(let payload = serialize pf' d'
      in if length payload < MAX_PAYLOAD_SIZE then Some (Inr [payload])
         else case split pf' d' of Inl e \<Rightarrow> Some (Inl e)
              | Inr (d0, d1) \<Rightarrow>
                  Option.bind (gp' pf' d0)
                   (\<lambda>r0. case r0 of Inl e \<Rightarrow> Some (Inl e)
                         | Inr p0 \<Rightarrow>
                             Option.bind (gp' pf' d1)
                              (\<lambda>r1. case r1 of Inl e \<Rightarrow> Some (Inl e)
                                    | Inr p1 \<Rightarrow> Some (Inr (p0 @ p1))))) = Some r"
    have first: "\<exists>p0. r0 = Inr p0" if "gp' pf ?d0 = Some r0" for r0
      using IH [OF that] by simp
    show "?P pf' d' r"
    proof (intro impI conjI)
      assume pf: "pf' = pf"
      show "d' \<noteq> d"
      proof
        assume "d' = d"
        with step pf nb sp have "Option.bind (gp' pf ?d0)
                   (\<lambda>r0. case r0 of Inl e \<Rightarrow> Some (Inl e)
                         | Inr p0 \<Rightarrow>
                             Option.bind (gp' pf d)
                              (\<lambda>r1. case r1 of Inl e \<Rightarrow> Some (Inl e)
                                    | Inr p1 \<Rightarrow> Some (Inr (p0 @ p1)))) = Some r"
          by (simp add: Let_def)
        from bind_first_Inr [OF this first] obtain r1 where "gp' pf d = Some r1" by blast
        from IH [OF this] show False by simp
      qed
    next
      assume pf: "pf' = pf" and d0: "d' = ?d0"
      show "\<exists>p. r = Inr p"
      proof (cases "length (serialize pf ?d0) < MAX_PAYLOAD_SIZE")
        case True
        with step pf d0 show ?thesis by (auto simp: Let_def)
      next
        case False
        with step pf d0 sp0 have "Option.bind (gp' pf ?d0)
                   (\<lambda>r0. case r0 of Inl e \<Rightarrow> Some (Inl e)
                         | Inr p0 \<Rightarrow>
                             Option.bind (gp' pf ?d0)
                              (\<lambda>r1. case r1 of Inl e \<Rightarrow> Some (Inl e)
                                    | Inr p1 \<Rightarrow> Some (Inr (p0 @ p1)))) = Some r"
          by (simp add: Let_def)
        from bind_first_Inr [OF this first] obtain p0 r1 where
          a: "gp' pf ?d0 = Some (Inr p0)" and b: "gp' pf ?d0 = Some r1"
          and r: "r = (case r1 of Inl e \<Rightarrow> Inl e | Inr p1 \<Rightarrow> Inr (p0 @ p1))"
          by blast
        from a b r show ?thesis by auto
      qed
    qed
  qed
  show ?thesis
  proof (cases "generate_payloads pf d")
    case None
    then show ?thesis .
  next
    case (Some r)
    from all [OF this] show ?thesis by simp
  qed
qed

text \<open>
  C1. The claim fails on the code. When the entry is the serialisation of an object
  with a single event and the envelope is too large, \<open>_split\<close> yields the envelope with
  no event and the same envelope again, so \<open>_generate_payloads\<close> calls itself on its
  own argument without end: it returns no payloads and raises no error of its own.
\<close>

theorem single_oversized_event_never_returns:
  assumes rb: "entry_reads_back pf kvs [ev]"
    and en: "data_entry d = json_dumps pf (entry_with kvs [ev])"
    and big: "MAX_PAYLOAD_SIZE \<le> length (serialize pf d)"
  shows "generate_payloads pf d = None"
  using rb en big by (rule single_event_loop)

theorem single_oversized_event_never_returns_witness:
  "MAX_PAYLOAD_SIZE \<le> length (serialize small_platform (example_data [JStr ''##''])) \<and>
   json_loads small_platform (data_entry (example_data [JStr ''##''])) = Some (example_entry [JStr ''##'']) \<and>
   generate_payloads small_platform (example_data [JStr ''##'']) = None"
proof -
  let ?kvs = "[(''owner'', JStr ''1''), (''logEvents'', JArr [])]"
  have rb: "entry_reads_back small_platform ?kvs [JStr ''##'']"
    using small_platform_reads_back [of JNull ?kvs "[JStr ''##'']"] by (simp add: reads_back_def)
  have en: "data_entry (example_data [JStr ''##'']) =
            json_dumps small_platform (entry_with ?kvs [JStr ''##''])"
    by (simp add: example_data_def make_data_def small_platform_def example_entry_with
        del: stack_dumps.simps)
  have l: "json_loads small_platform (data_entry (example_data [JStr ''##''])) =
           Some (example_entry [JStr ''##''])"
    by (simp add: example_data_def make_data_def small_platform_def stack_loads_dumps
        del: stack_dumps.simps)
  from single_oversized_event_never_returns [OF rb en example_data_sizes(4)] example_data_sizes(4) l
  show ?thesis by simp
qed

subsection \<open>The events carried by the payloads\<close>

lemma example_single_event_loops:
  "generate_payloads small_platform (example_data [JStr ''##'']) = None"
proof -
  let ?kvs = "[(''owner'', JStr ''1''), (''logEvents'', JArr [])]"
  have rb: "entry_reads_back small_platform ?kvs [JStr ''##'']"
    using small_platform_reads_back [of JNull ?kvs "[JStr ''##'']"] by (simp add: reads_back_def)
  have en: "data_entry (example_data [JStr ''##'']) =
            json_dumps small_platform (entry_with ?kvs [JStr ''##''])"
    by (simp add: example_data_def make_data_def small_platform_def example_entry_with
        del: stack_dumps.simps)
  from single_event_loop [OF rb en example_data_sizes(4)] show ?thesis .
qed

text \<open>
  C3, as the claim states it, fails: the entry below parses as JSON with a list of two
  events under \<open>logEvents\<close>, the second of which does not fit alone, and
  \<open>_generate_payloads\<close> returns no sequence of payloads at all, so no payload carries
  either event.
\<close>

theorem split_loses_events_counterexample:
  "json_loads small_platform (data_entry (example_data [JStr ''a#'', JStr ''##''])) =
     Some (example_entry [JStr ''a#'', JStr ''##'']) \<and>
   py_getitem (example_entry [JStr ''a#'', JStr ''##'']) ''logEvents'' =
     Inr (JArr [JStr ''a#'', JStr ''##'']) \<and>
   generate_payloads small_platform (example_data [JStr ''a#'', JStr ''##'']) = None"
proof -
  have l: "json_loads small_platform (data_entry (example_data [JStr ''a#'', JStr ''##''])) =
           Some (example_entry [JStr ''a#'', JStr ''##''])"
    by (simp add: example_data_def make_data_def small_platform_def stack_loads_dumps
        del: stack_dumps.simps)
  have g: "py_getitem (example_entry [JStr ''a#'', JStr ''##'']) ''logEvents'' =
           Inr (JArr [JStr ''a#'', JStr ''##''])"
    by (simp add: example_entry_def)
  have big: "\<not> length (serialize small_platform (example_data [JStr ''a#'', JStr ''##''])) < MAX_PAYLOAD_SIZE"
    by (simp add: length_serialize_small_platform example_data_def make_data_def data_json_def
      context_json_def example_context_def example_entry_def stack_dumps_str_def MAX_PAYLOAD_SIZE_def)
  have sp: "split small_platform (example_data [JStr ''a#'', JStr ''##'']) =
            Inr (example_data [JStr ''a#''], example_data [JStr ''##''])"
    by (simp add: split_example_data)
  have "generate_payloads small_platform (example_data [JStr ''a#'', JStr ''##'']) = None"
    by (simp add: generate_payloads_large [OF big] sp
        generate_payloads_small [OF example_data_sizes(2)] example_single_event_loops)
  with l g show ?thesis by simp
qed

text \<open>
  C3, amended. Let the entry of an envelope parse to an object whose \<open>logEvents\<close> is a
  list, on a library that reads back what it writes (\<open>reads_back\<close>), and let every
  single event fit (\<open>single_events_fit\<close>). Then \<open>_generate_payloads\<close> returns a sequence
  of payloads, each below the limit, and the lists of events found in them, one after
  the other in the order of the payloads, make up the original list: same events, same
  order, none twice, none missing. The assignment \<open>entry['logEvents'] = ...\<close> on the
  shared dict does no harm, since each half is serialised before the next assignment.
\<close>

theorem split_preserves_logEvents:
  assumes "reads_back pf (data_context d) kvs evs"
    and "json_loads pf (data_entry d) = Some (JObj kvs)"
    and "map_of kvs ''logEvents'' = Some (JArr evs)"
    and "single_events_fit pf d kvs evs"
  shows "\<exists>ps. generate_payloads pf d = Some (Inr ps) \<and>
              carried_logEvents pf ps = Some evs \<and>
              (\<forall>p \<in> set ps. length p < MAX_PAYLOAD_SIZE)"
proof -
  have "JObj kvs = entry_with kvs evs"
    using assms(3) by (simp add: entry_with_def update_triv)
  with assms(2) have ld: "json_loads pf (data_entry d) = Some (entry_with kvs evs)" by simp
  have rb: "entry_reads_back pf kvs evs" using assms(1) by (simp add: reads_back_def)
  have fit: "\<And>ev. ev \<in> set evs \<Longrightarrow>
               length (serialize pf \<lparr>data_context = data_context d,
                  data_entry = json_dumps pf (entry_with kvs [ev])\<rparr>) < MAX_PAYLOAD_SIZE"
    using assms(4) by (simp add: single_events_fit_def)
  have root: "length evs \<le> 1 \<Longrightarrow> length (serialize pf d) < MAX_PAYLOAD_SIZE"
    using assms(4) by (simp add: single_events_fit_def)
  have "\<exists>ps. generate_payloads pf d = Some (Inr ps)"
    by (rule generate_payloads_returns [where evs0 = evs and ctx = "data_context d" and kvs = kvs])
       (use rb fit ld root in auto)
  then obtain ps where gp: "generate_payloads pf d = Some (Inr ps)" by blast
  from carried_logEvents_generate [OF gp, of kvs evs] assms(1) ld
  have c: "carried_logEvents pf ps = Some evs" by blast
  from generate_payloads_below_limit [OF gp]
  have b: "\<forall>p \<in> set ps. length p < MAX_PAYLOAD_SIZE" by blast
  from gp c b show ?thesis by blast
qed

theorem split_preserves_logEvents_witness:
  "generate_payloads small_platform (example_data [JStr ''a#'', JStr ''b#'']) =
     Some (Inr [serialize small_platform (example_data [JStr ''a#'']),
                serialize small_platform (example_data [JStr ''b#''])]) \<and>
   carried_logEvents small_platform
     [serialize small_platform (example_data [JStr ''a#'']),
      serialize small_platform (example_data [JStr ''b#''])] = Some [JStr ''a#'', JStr ''b#''] \<and>
   length (serialize small_platform (example_data [JStr ''a#''])) < MAX_PAYLOAD_SIZE \<and>
   length (serialize small_platform (example_data [JStr ''b#''])) < MAX_PAYLOAD_SIZE"
proof -
  let ?kvs = "[(''owner'', JStr ''1''), (''logEvents'', JArr [JStr ''a#'', JStr ''b#''])]"
  let ?d = "example_data [JStr ''a#'', JStr ''b#'']"
  have l: "json_loads small_platform (data_entry ?d) = Some (JObj ?kvs)"
    by (simp add: example_data_def make_data_def small_platform_def stack_loads_dumps example_entry_def
        del: stack_dumps.simps)
  have m: "map_of ?kvs ''logEvents'' = Some (JArr [JStr ''a#'', JStr ''b#''])" by simp
  have one: "\<lparr>data_context = data_context ?d,
              data_entry = json_dumps small_platform (entry_with ?kvs [ev])\<rparr> = example_data [ev]" for ev
    by (simp add: example_data_def make_data_def small_platform_def example_entry_with
        del: stack_dumps.simps)
  have f: "single_events_fit small_platform ?d ?kvs [JStr ''a#'', JStr ''b#'']"
    unfolding single_events_fit_def one
    using example_data_sizes(2,3) by simp
  from split_preserves_logEvents [OF small_platform_reads_back l m f]
    generate_payloads_two_events
  show ?thesis by auto
qed

subsection \<open>An entry that cannot be split\<close>

text \<open>
  C5, as the claim states it, fails: the entry \<open>##\<close> is not JSON, its envelope needs
  splitting, and what leaves \<open>_send_log_entry\<close> is the \<open>JSONDecodeError\<close> of
  \<open>json.loads\<close>, which is no \<open>BadRequestException\<close>; nothing is printed and nothing
  caught.
\<close>

theorem unparseable_entry_counterexample:
  "MAX_PAYLOAD_SIZE \<le> length (serialize small_platform (make_data ''##'' example_context)) \<and>
   json_loads small_platform ''##'' = None \<and>
   send_log_entry small_platform (Str ''##'') example_context (scripted_world []) =
     Some (Inl JSONDecodeError, scripted_world []) \<and>
   \<not> is_BadRequest JSONDecodeError \<and>
   printed (scripted_world []) = []"
proof -
  have big: "MAX_PAYLOAD_SIZE \<le> length (serialize small_platform (make_data ''##'' example_context))"
    by (simp add: length_serialize_small_platform make_data_def data_json_def
      context_json_def example_context_def stack_dumps_str_def MAX_PAYLOAD_SIZE_def)
  have l: "json_loads small_platform ''##'' = None"
    by (simp add: small_platform_def stack_loads_def)
  have sp: "split small_platform (make_data ''##'' example_context) = Inl JSONDecodeError"
    using l by (simp add: split_def make_data_def)
  have nb: "\<not> length (serialize small_platform (make_data ''##'' example_context)) < MAX_PAYLOAD_SIZE"
    using big by simp
  have "generate_payloads small_platform (make_data ''##'' example_context) = Some (Inl JSONDecodeError)"
    by (simp add: generate_payloads_large [OF nb] sp)
  then show ?thesis
    using big l by (simp add: send_log_entry_def scripted_world_def)
qed

text \<open>
  C5, amended. When the envelope needs splitting and the entry is not JSON, or is JSON
  but not an object, or is an object without the key \<open>logEvents\<close>, or has under that key
  something that is neither a list nor a string, \<open>_split\<close> raises \<open>JSONDecodeError\<close>,
  \<open>TypeError\<close>, \<open>KeyError\<close> or \<open>TypeError\<close> respectively. The exception is none of the
  module's own, nothing catches it, and it leaves \<open>_send_log_entry\<close> with no request
  made and no line printed.
\<close>

theorem unsplittable_entry_raises_uncaught:
  assumes "MAX_PAYLOAD_SIZE \<le> length (serialize pf (make_data s ctx))"
    and "split_failure pf s = Some e"
  shows "send_log_entry pf (Str s) ctx w = Some (Inl e, w) \<and>
         e \<in> {JSONDecodeError, KeyError, TypeError} \<and> \<not> is_BadRequest e"
proof -
  have nb: "\<not> length (serialize pf (make_data s ctx)) < MAX_PAYLOAD_SIZE"
    using assms(1) by simp
  have sp: "split pf (make_data s ctx) = Inl e"
    using assms(2) by (intro split_failure_split) (simp add: make_data_def)
  have "generate_payloads pf (make_data s ctx) = Some (Inl e)"
    by (simp add: generate_payloads_large [OF nb] sp)
  moreover have k: "e \<in> {JSONDecodeError, KeyError, TypeError}"
    using assms(2) by (rule split_failure_kinds)
  moreover from k have "\<not> is_BadRequest e" by auto
  ultimately show ?thesis by (simp add: send_log_entry_def)
qed

theorem unsplittable_entry_raises_uncaught_witness:
  "send_log_entry small_platform (Str ''s~#~#'') example_context (scripted_world []) =
     Some (Inl TypeError, scripted_world []) \<and>
   send_log_entry small_platform (Str ''{s~#~#n:'') example_context (scripted_world []) =
     Some (Inl KeyError, scripted_world [])"
proof -
  have b1: "MAX_PAYLOAD_SIZE \<le> length (serialize small_platform (make_data ''s~#~#'' example_context))"
    by (simp add: length_serialize_small_platform make_data_def data_json_def
      context_json_def example_context_def stack_dumps_str_def MAX_PAYLOAD_SIZE_def)
  have f1: "split_failure small_platform ''s~#~#'' = Some TypeError"
    by (simp add: split_failure_def small_platform_def stack_loads_def)
  have b2: "MAX_PAYLOAD_SIZE \<le> length (serialize small_platform (make_data ''{s~#~#n:'' example_context))"
    by (simp add: length_serialize_small_platform make_data_def data_json_def
      context_json_def example_context_def stack_dumps_str_def MAX_PAYLOAD_SIZE_def)
  have f2: "split_failure small_platform ''{s~#~#n:'' = Some KeyError"
    by (simp add: split_failure_def small_platform_def stack_loads_def)
  from unsplittable_entry_raises_uncaught [OF b1 f1, of "scripted_world []"]
       unsplittable_entry_raises_uncaught [OF b2 f2, of "scripted_world []"]
  show ?thesis by simp
qed

subsection \<open>The dispatcher and a failing payload\<close>

lemma send_payloads_append:
  "send_payloads et (pre @ rest) w0 =
     (case send_payloads et pre w0 of
        (Inl e, w) \<Rightarrow> (Inl e, w)
      | (Inr u, w) \<Rightarrow> send_payloads et rest w)"
  by (induction pre arbitrary: w0) (auto split: prod.splits sum.splits)

lemma send_payload_BadRequest:
  "wrapper_func (do_request et payload) w = (Inl (BadRequestException m), w1) \<Longrightarrow>
   send_payload et payload w = (Inr (), print m w1)"
  by (simp add: send_payload_def)

lemma send_payload_MaxRetries:
  "wrapper_func (do_request et payload) w = (Inl MaxRetriesException, w1) \<Longrightarrow>
   send_payload et payload w =
     (Inl MaxRetriesException, print ''Retry limit reached. Failed to send log entry.'' w1)"
  by (simp add: send_payload_def)

lemma send_payload_Response:
  "wrapper_func (do_request et payload) w = (Inr code, w1) \<Longrightarrow>
   send_payload et payload w =
     (Inr (), print (''Log entry sent. Response code: '' @ str_of_int code) w1)"
  by (simp add: send_payload_def)

lemma send_log_entry_payloads:
  "generate_payloads pf (make_data s ctx) = Some (Inr payloads) \<Longrightarrow>
   send_log_entry pf (Str s) ctx w = Some (send_payloads (get_entry_type s) payloads w)"
  by (simp add: send_log_entry_def)

text \<open>
  C6. Let a payload of an envelope be reached by the loop of \<open>_send_log_entry\<close>, the
  payloads before it having been sent. If the transport raises \<open>BadRequestException\<close>
  for it, \<open>_send_payload\<close> catches the exception and prints it, and the loop goes on
  with the payloads that follow. If the transport raises \<open>MaxRetriesException\<close>,
  \<open>_send_payload\<close> prints a line and raises it again, and \<open>_send_log_entry\<close> ends with
  it: the payloads that follow are not sent.
\<close>

theorem dispatcher_partial_failure:
  "(generate_payloads pf (make_data s ctx) = Some (Inr (pre @ payload # rest)) \<and>
    send_payloads (get_entry_type s) pre w0 = (Inr (), w) \<and>
    wrapper_func (do_request (get_entry_type s) payload) w = (Inl (BadRequestException m), w1) \<longrightarrow>
      send_payload (get_entry_type s) payload w = (Inr (), print m w1) \<and>
      send_log_entry pf (Str s) ctx w0 = Some (send_payloads (get_entry_type s) rest (print m w1))) \<and>
   (generate_payloads pf (make_data s ctx) = Some (Inr (pre @ payload # rest)) \<and>
    send_payloads (get_entry_type s) pre w0 = (Inr (), w) \<and>
    wrapper_func (do_request (get_entry_type s) payload) w = (Inl MaxRetriesException, w1) \<longrightarrow>
      send_payload (get_entry_type s) payload w =
        (Inl MaxRetriesException, print ''Retry limit reached. Failed to send log entry.'' w1) \<and>
      send_log_entry pf (Str s) ctx w0 =
        Some (Inl MaxRetriesException, print ''Retry limit reached. Failed to send log entry.'' w1))"
  by (auto simp: send_log_entry_payloads send_payloads_append send_payload_BadRequest
      send_payload_MaxRetries)

lemma body_make_request: "body (make_request w et p) = p"
  by (simp add: make_request_def)

lemma progress_print: "progress w w1 reqs sl \<Longrightarrow> progress w (print line w1) reqs sl"
  by (simp add: progress_def print_def)

theorem dispatcher_partial_failure_witness:
  "(\<exists>w'. send_log_entry small_platform (Str (stack_dumps (example_entry [JStr ''a#'', JStr ''b#''])))
            example_context (scripted_world [HTTPError 403 ''Forbidden'', Response 200]) =
            Some (Inr (), w') \<and>
          map body (sent w') = [serialize small_platform (example_data [JStr ''a#'']),
                                serialize small_platform (example_data [JStr ''b#''])] \<and>
          slept w' = []) \<and>
   (\<exists>w'. send_log_entry small_platform (Str (stack_dumps (example_entry [JStr ''a#'', JStr ''b#''])))
            example_context (scripted_world []) =
            Some (Inl MaxRetriesException, w') \<and>
          map body (sent w') = [serialize small_platform (example_data [JStr ''a#'']),
                                serialize small_platform (example_data [JStr ''a#'']),
                                serialize small_platform (example_data [JStr ''a#''])] \<and>
          slept w' = [1, 2])"
proof -
  let ?s = "stack_dumps (example_entry [JStr ''a#'', JStr ''b#''])"
  let ?et = "get_entry_type ?s"
  let ?pA = "serialize small_platform (example_data [JStr ''a#''])"
  let ?pB = "serialize small_platform (example_data [JStr ''b#''])"
  let ?wA = "scripted_world [HTTPError 403 ''Forbidden'', Response 200]"
  let ?wD = "scripted_world []"
  have gp: "generate_payloads small_platform (make_data ?s example_context) =
            Some (Inr ([] @ ?pA # [?pB]))"
    using generate_payloads_two_events by (simp add: example_data_def del: stack_dumps.simps)
  \<comment> \<open>first payload rejected with 403, second accepted\<close>
  have "\<not> retryable (outcome ?wA ?et ?pA (1 - 1))" by (simp add: outcome_scripted)
  from run_final [OF _ _ _ this] obtain w1 where
    r1: "wrapper_func (do_request ?et ?pA) ?wA = (verdict (outcome ?wA ?et ?pA (1 - 1)), w1)"
    and p1: "progress ?wA w1 (replicate 1 (make_request ?wA ?et ?pA)) (backoffs 1)"
    by auto
  obtain m where v1: "verdict (outcome ?wA ?et ?pA (1 - 1)) = Inl (BadRequestException m)"
    by (simp add: outcome_scripted)
  have pre: "send_payloads ?et [] ?wA = (Inr (), ?wA)" by simp
  from dispatcher_partial_failure [of small_platform ?s example_context "[]" ?pA "[?pB]" ?wA ?wA m w1]
    gp pre r1 v1
  have sl: "send_log_entry small_platform (Str ?s) example_context ?wA =
            Some (send_payloads ?et [?pB] (print m w1))"
    by (simp del: stack_dumps.simps)
  have p1': "progress ?wA (print m w1) [make_request ?wA ?et ?pA] []"
    using progress_print [OF p1] by (simp add: backoffs_def)
  have o2: "outcome (print m w1) ?et ?pB (1 - 1) = Response 200"
    using p1' by (simp add: outcome_def progress_def scripted_world_def)
  then have "\<not> retryable (outcome (print m w1) ?et ?pB (1 - 1))" by simp
  from run_final [OF _ _ _ this] obtain w2 where
    r2: "wrapper_func (do_request ?et ?pB) (print m w1) =
         (verdict (outcome (print m w1) ?et ?pB (1 - 1)), w2)"
    and p2: "progress (print m w1) w2 (replicate 1 (make_request (print m w1) ?et ?pB)) (backoffs 1)"
    by auto
  from r2 o2 have r2': "wrapper_func (do_request ?et ?pB) (print m w1) = (Inr 200, w2)" by simp
  have first: "\<exists>w'. send_log_entry small_platform (Str ?s) example_context ?wA = Some (Inr (), w') \<and>
          map body (sent w') = [?pA, ?pB] \<and> slept w' = []"
    using sl send_payload_Response [OF r2'] p1' p2
    by (simp add: progress_def print_def body_make_request backoffs_def scripted_world_def
        del: stack_dumps.simps)
  \<comment> \<open>remote end unreachable: the budget of the first payload is used up\<close>
  have "\<forall>i<3. retryable (outcome ?wD ?et ?pA i)" by (simp add: outcome_scripted)
  from run_exhausted [OF this] obtain w3 where
    r3: "wrapper_func (do_request ?et ?pA) ?wD = (Inl MaxRetriesException, w3)"
    and p3: "progress ?wD w3 (replicate 3 (make_request ?wD ?et ?pA)) (backoffs 3)"
    by blast
  have preD: "send_payloads ?et [] ?wD = (Inr (), ?wD)" by simp
  from dispatcher_partial_failure [of small_platform ?s example_context "[]" ?pA "[?pB]" ?wD ?wD m w3]
    gp preD r3
  have "send_log_entry small_platform (Str ?s) example_context ?wD =
        Some (Inl MaxRetriesException, print ''Retry limit reached. Failed to send log entry.'' w3)"
    by (simp del: stack_dumps.simps)
  then have second: "\<exists>w'. send_log_entry small_platform (Str ?s) example_context ?wD =
            Some (Inl MaxRetriesException, w') \<and>
          map body (sent w') = [?pA, ?pA, ?pA] \<and> slept w' = [1, 2]"
    using p3 backoffs_3
    by (simp add: progress_def print_def body_make_request scripted_world_def
        numeral_3_eq_3 del: stack_dumps.simps)
  from first second show ?thesis by blast
qed

subsection \<open>The credential header\<close>

text \<open>
  C9. The claim is right and the code is not. Whatever the environment variable
  \<open>LICENSE_KEY\<close> holds, the header \<open>X-License-Key\<close> of every request carries the same
  fixed text, while the host of the same request is chosen by reading \<open>LICENSE_KEY\<close>.
\<close>

theorem license_key_header_ignores_configuration:
  "map_of (headers (make_request (w\<lparr>environ := (environ w)(''LICENSE_KEY'' \<mapsto> key)\<rparr>) et p))
     ''X-License-Key'' = Some ''f7462ab48bc1fee992a5ab87c707a21b6b1ab893'' \<and>
   map_of (headers (make_request
      ((scripted_world [])\<lparr>environ := [''LICENSE_KEY'' \<mapsto> ''eu01xx0123456789''] \<rparr>) OTHER p))
     ''X-License-Key'' \<noteq> Some ''eu01xx0123456789'' \<and>
   url (make_request
      ((scripted_world [])\<lparr>environ := [''LICENSE_KEY'' \<mapsto> ''eu01xx0123456789''] \<rparr>) OTHER p) =
     ''https://cloud-collector.eu.newrelic.com/aws/v1''"
  by (simp add: make_request_def get_license_key_def get_ingest_service_url_def
      get_ingest_service_host_def getenv_def scripted_world_def EU_INGEST_SERVICE_HOST_def
      INGEST_SERVICE_VERSION_def)

subsection \<open>Trigger classification\<close>

text \<open>
  C10. For an event dict without the key \<open>awslogs\<close> whose \<open>Records\<close> is the empty list,
  \<open>_get_log_type\<close> raises \<open>IndexError\<close> at \<open>event['Records'][0]\<close>; it does not return
  \<open>'unknown'\<close>, and \<open>lambda_handler\<close> ends with the same exception before it prints or
  sends anything.
\<close>

theorem empty_records_raises_IndexError:
  assumes "''awslogs'' \<notin> set (map fst kvs)" and "map_of kvs ''Records'' = Some (JArr [])"
  shows "get_log_type (JObj kvs) = Inl IndexError \<and>
         get_log_type (JObj kvs) \<noteq> Inr ''unknown'' \<and>
         lambda_handler pf (JObj kvs) ctx w = Some (Inl IndexError, w)"
proof -
  have "''Records'' \<in> set (map fst kvs)"
    using assms(2) by (metis map_of_eq_None_iff option.distinct(1) set_map)
  with assms have "get_log_type (JObj kvs) = Inl IndexError"
    by (simp add: get_log_type_def bind_exn_def)
  then show ?thesis by (simp add: lambda_handler_def lift_exn_def)
qed

theorem empty_records_raises_IndexError_witness:
  "get_log_type (JObj [(''Records'', JArr [])]) = Inl IndexError \<and>
   lambda_handler small_platform (JObj [(''Records'', JArr [])]) example_context (scripted_world []) =
     Some (Inl IndexError, scripted_world [])"
  using empty_records_raises_IndexError [of "[(''Records'', JArr [])]" small_platform example_context
      "scripted_world []"]
  by simp

end
